theory Spec2Isabelle
  imports Main
begin

section \<open>Text primitives of the Python runtime\<close>

text \<open>
  A text is a \<open>string\<close>: one \<open>char\<close> per code point, for the code points
  U+0000 to U+00FF. The character tables below are Python's on that range.
\<close>

definition code :: "char \<Rightarrow> nat" where
  "code c = of_char c"

text \<open>\<open>str.isspace\<close> on one character; the same set is what \<open>\s\<close> matches in a
  \<open>str\<close> pattern and what \<open>str.strip()\<close> removes.\<close>

definition isspace :: "char \<Rightarrow> bool" where
  "isspace c = (let n = code c in (9 \<le> n \<and> n \<le> 13) \<or> (28 \<le> n \<and> n \<le> 32) \<or> n = 133 \<or> n = 160)"

definition isdigit :: "char \<Rightarrow> bool" where
  "isdigit c = (let n = code c in 48 \<le> n \<and> n \<le> 57)"

text \<open>Simple case mapping of one character (what \<open>re.IGNORECASE\<close> folds with).\<close>

definition lower_chr :: "char \<Rightarrow> char" where
  "lower_chr c = (let n = code c in
     if (65 \<le> n \<and> n \<le> 90) \<or> (192 \<le> n \<and> n \<le> 222 \<and> n \<noteq> 215) then char_of (n + 32) else c)"

definition upper_chr :: "char \<Rightarrow> char" where
  "upper_chr c = (let n = code c in
     if (97 \<le> n \<and> n \<le> 122) \<or> (224 \<le> n \<and> n \<le> 254 \<and> n \<noteq> 247) then char_of (n - 32) else c)"

text \<open>
  \<open>str.upper()\<close>: the sharp s (U+00DF) becomes the two letters SS. The upper-case
  forms of U+00B5 and U+00FF lie beyond U+00FF; they are kept as they are, which
  no comparison against an ASCII keyword can tell apart.
\<close>

definition upper_str :: "char \<Rightarrow> string" where
  "upper_str c = (if code c = 223 then ''SS'' else [upper_chr c])"

definition upper :: "string \<Rightarrow> string" where
  "upper s = concat (map upper_str s)"

definition strip :: "string \<Rightarrow> string" where
  "strip s = rev (dropWhile isspace (rev (dropWhile isspace s)))"

text \<open>\<open>sub in s\<close> for strings: some suffix of \<open>s\<close> starts with \<open>sub\<close>.\<close>

fun starts_with :: "string \<Rightarrow> string \<Rightarrow> bool" where
  "starts_with [] s = True"
| "starts_with (a # as) [] = False"
| "starts_with (a # as) (c # cs) = (a = c \<and> starts_with as cs)"

fun contains :: "string \<Rightarrow> string \<Rightarrow> bool" where
  "contains sub [] = (sub = [])"
| "contains sub (c # cs) = (starts_with sub (c # cs) \<or> contains sub cs)"

text \<open>\<open>s.count(c)\<close> for a one-character \<open>c\<close>.\<close>

definition count_chr :: "char \<Rightarrow> string \<Rightarrow> nat" where
  "count_chr c s = length (filter (\<lambda>d. d = c) s)"

text \<open>\<open>s.split(sep)\<close> for a one-character separator, and \<open>sep.join(parts)\<close>.\<close>

fun split_chr :: "char \<Rightarrow> string \<Rightarrow> string list" where
  "split_chr sep [] = [[]]"
| "split_chr sep (c # cs) =
     (if c = sep then [] # split_chr sep cs
      else (case split_chr sep cs of
              [] \<Rightarrow> [[c]]
            | p # ps \<Rightarrow> (c # p) # ps))"

fun join :: "string \<Rightarrow> string list \<Rightarrow> string" where
  "join sep [] = []"
| "join sep [p] = p"
| "join sep (p # q # ps) = p @ sep @ join sep (q # ps)"

section \<open>Regular expressions of the pattern catalog\<close>

text \<open>
  The expressions of \<open>app.py\<close> are built from one-character atoms, quantified
  atoms, sequence, alternation, positive lookahead and the two anchors. A quantifier
  \<open>Rep a lo hi greedy\<close> stands for \<open>a{lo,hi}\<close> (\<open>hi = None\<close>: unbounded), lazy when
  \<open>greedy\<close> is false.
\<close>

datatype citem = CChar char | CRange char char | CSpace

datatype atom = Chr char | Any | WS | Dig | In "citem list" | NotIn "citem list"

datatype regex =
    Eps
  | A atom
  | Rep atom nat "nat option" bool
  | Seq regex regex
  | Alt regex regex
  | Look regex
  | Bol
  | Eol

record flags =
  ignorecase :: bool
  multiline :: bool
  dotall :: bool

definition nl :: char where
  "nl = CHR 0x0A"

text \<open>Membership of a character in one item of a bracket class. Under
  \<open>IGNORECASE\<close> the class holds the lower-case forms of its members and the subject
  character is lowered before the test, so a range matches when it holds either case
  form of the character.\<close>

fun item_match :: "bool \<Rightarrow> citem \<Rightarrow> char \<Rightarrow> bool" where
  "item_match ic (CChar x) c = (if ic then lower_chr c = lower_chr x else c = x)"
| "item_match ic (CRange a b) c =
     (if ic then (code a \<le> code (lower_chr c) \<and> code (lower_chr c) \<le> code b)
               \<or> (code a \<le> code (upper_chr c) \<and> code (upper_chr c) \<le> code b)
      else code a \<le> code c \<and> code c \<le> code b)"
| "item_match ic CSpace c = isspace c"

fun amatch :: "flags \<Rightarrow> atom \<Rightarrow> char \<Rightarrow> bool" where
  "amatch fl (Chr x) c = (if ignorecase fl then lower_chr c = lower_chr x else c = x)"
| "amatch fl Any c = (dotall fl \<or> c \<noteq> nl)"
| "amatch fl WS c = isspace c"
| "amatch fl Dig c = isdigit c"
| "amatch fl (In items) c = list_ex (\<lambda>i. item_match (ignorecase fl) i c) items"
| "amatch fl (NotIn items) c = (\<not> list_ex (\<lambda>i. item_match (ignorecase fl) i c) items)"

text \<open>
  The matcher is the backtracking matcher of \<open>re\<close> in continuation-passing style: a
  position is the previous character (\<open>None\<close> at the start of the text) and the rest
  of the text, \<open>k\<close> is what remains to be matched, and the first way that lets \<open>k\<close>
  succeed is the result. A greedy quantifier tries the longer match first, a lazy one
  the shorter.
\<close>

definition dec :: "nat option \<Rightarrow> nat option" where
  "dec hi = map_option (\<lambda>h. h - 1) hi"

fun rep_greedy :: "(char \<Rightarrow> bool) \<Rightarrow> nat \<Rightarrow> nat option \<Rightarrow> char option \<Rightarrow> string
    \<Rightarrow> (char option \<Rightarrow> string \<Rightarrow> 'r option) \<Rightarrow> 'r option" where
  "rep_greedy p lo hi prev [] k = (if lo = 0 then k prev [] else None)"
| "rep_greedy p lo hi prev (c # s) k =
     (if p c \<and> hi \<noteq> Some 0
      then (case rep_greedy p (lo - 1) (dec hi) (Some c) s k of
              Some r \<Rightarrow> Some r
            | None \<Rightarrow> if lo = 0 then k prev (c # s) else None)
      else if lo = 0 then k prev (c # s) else None)"

fun rep_lazy :: "(char \<Rightarrow> bool) \<Rightarrow> nat \<Rightarrow> nat option \<Rightarrow> char option \<Rightarrow> string
    \<Rightarrow> (char option \<Rightarrow> string \<Rightarrow> 'r option) \<Rightarrow> 'r option" where
  "rep_lazy p lo hi prev [] k = (if lo = 0 then k prev [] else None)"
| "rep_lazy p lo hi prev (c # s) k =
     (if lo = 0
      then (case k prev (c # s) of
              Some r \<Rightarrow> Some r
            | None \<Rightarrow> if p c \<and> hi \<noteq> Some 0 then rep_lazy p 0 (dec hi) (Some c) s k else None)
      else if p c \<and> hi \<noteq> Some 0 then rep_lazy p (lo - 1) (dec hi) (Some c) s k else None)"

definition at_bol :: "flags \<Rightarrow> char option \<Rightarrow> bool" where
  "at_bol fl prev = (prev = None \<or> (multiline fl \<and> prev = Some nl))"

definition at_eol :: "flags \<Rightarrow> string \<Rightarrow> bool" where
  "at_eol fl s = (s = [] \<or> (if multiline fl then hd s = nl else s = [nl]))"

fun rmatch :: "flags \<Rightarrow> regex \<Rightarrow> char option \<Rightarrow> string
    \<Rightarrow> (char option \<Rightarrow> string \<Rightarrow> 'r option) \<Rightarrow> 'r option" where
  "rmatch fl Eps prev s k = k prev s"
| "rmatch fl (A a) prev s k =
     (case s of [] \<Rightarrow> None | c # s' \<Rightarrow> if amatch fl a c then k (Some c) s' else None)"
| "rmatch fl (Rep a lo hi greedy) prev s k =
     (if greedy then rep_greedy (amatch fl a) lo hi prev s k
      else rep_lazy (amatch fl a) lo hi prev s k)"
| "rmatch fl (Seq r1 r2) prev s k = rmatch fl r1 prev s (\<lambda>prev' s'. rmatch fl r2 prev' s' k)"
| "rmatch fl (Alt r1 r2) prev s k =
     (case rmatch fl r1 prev s k of Some r \<Rightarrow> Some r | None \<Rightarrow> rmatch fl r2 prev s k)"
| "rmatch fl (Look r) prev s k = rmatch fl r prev s (\<lambda>_ _. k prev s)"
| "rmatch fl Bol prev s k = (if at_bol fl prev then k prev s else None)"
| "rmatch fl Eol prev s k = (if at_eol fl s then k prev s else None)"


section \<open>Patterns, \<open>re.search\<close>, \<open>re.findall\<close> and \<open>re.sub\<close>\<close>

text \<open>
  Every pattern of the catalog has the shape \<open>(?:label)(group)(?=lookahead)\<close> with
  one capturing group; the label or the lookahead may be missing. A pattern keeps its
  source text \<open>src\<close> (the code inspects it) beside the three parsed parts.
\<close>

record pattern =
  src :: string
  pre :: regex
  grp :: regex
  post :: regex

text \<open>A match of \<open>(?:a)(g)b\<close> at the current position: group 1, and the position
  after the match.\<close>

definition match_at :: "flags \<Rightarrow> regex \<Rightarrow> regex \<Rightarrow> regex \<Rightarrow> char option \<Rightarrow> string
    \<Rightarrow> (string \<times> char option \<times> string) option" where
  "match_at fl a g b prev s =
     rmatch fl a prev s (\<lambda>p1 s1.
       rmatch fl g p1 s1 (\<lambda>p2 s2.
         rmatch fl b p2 s2 (\<lambda>p3 s3.
           Some (take (length s1 - length s2) s1, p3, s3))))"

text \<open>The scan of \<open>re.search\<close>: the leftmost position with a match.\<close>

fun search_from :: "flags \<Rightarrow> regex \<Rightarrow> regex \<Rightarrow> regex \<Rightarrow> char option \<Rightarrow> string
    \<Rightarrow> (string \<times> char option \<times> string) option" where
  "search_from fl a g b prev [] = match_at fl a g b prev []"
| "search_from fl a g b prev (c # s) =
     (case match_at fl a g b prev (c # s) of
        Some m \<Rightarrow> Some m
      | None \<Rightarrow> search_from fl a g b (Some c) s)"

text \<open>\<open>re.search(pattern, text, flags)\<close>, read through \<open>match.group(1)\<close>.\<close>

definition re_search :: "flags \<Rightarrow> pattern \<Rightarrow> string \<Rightarrow> string option" where
  "re_search fl p text = map_option fst (search_from fl (pre p) (grp p) (post p) None text)"

text \<open>
  \<open>re.findall\<close> for a pattern with one group: group 1 of each match, scanning on from
  the end of the previous match. Every pattern of the catalog consumes at least one
  character, so the rule of \<open>re\<close> for empty matches is never used; the scan steps over one
  character where a match consumed nothing.
\<close>

function findall_from :: "flags \<Rightarrow> regex \<Rightarrow> regex \<Rightarrow> regex \<Rightarrow> char option \<Rightarrow> string
    \<Rightarrow> string list" where
  "findall_from fl a g b prev s =
     (case search_from fl a g b prev s of
        None \<Rightarrow> []
      | Some (m, prev', s') \<Rightarrow>
          m # (if length s' < length s then findall_from fl a g b prev' s'
               else (case s of [] \<Rightarrow> [] | c # t \<Rightarrow> findall_from fl a g b (Some c) t)))"
  by pat_completeness auto
termination
  by (relation "measure (\<lambda>(fl, a, g, b, prev, s). length s)") auto

definition re_findall :: "flags \<Rightarrow> pattern \<Rightarrow> string \<Rightarrow> string list" where
  "re_findall fl p text = findall_from fl (pre p) (grp p) (post p) None text"

text \<open>\<open>re.sub(r, repl, text)\<close> for an expression without groups.\<close>

function sub_from :: "flags \<Rightarrow> regex \<Rightarrow> string \<Rightarrow> char option \<Rightarrow> string \<Rightarrow> string" where
  "sub_from fl r repl prev s =
     (case rmatch fl r prev s (\<lambda>prev' s'. Some (prev', s')) of
        Some (prev', s') \<Rightarrow>
          if length s' < length s then repl @ sub_from fl r repl prev' s'
          else repl @ (case s of [] \<Rightarrow> [] | c # t \<Rightarrow> c # sub_from fl r repl (Some c) t)
      | None \<Rightarrow> (case s of [] \<Rightarrow> [] | c # t \<Rightarrow> c # sub_from fl r repl (Some c) t))"
  by pat_completeness auto
termination
  by (relation "measure (\<lambda>(fl, r, repl, prev, s). length s)") auto

definition re_sub :: "regex \<Rightarrow> string \<Rightarrow> string \<Rightarrow> string" where
  "re_sub r repl text =
     sub_from \<lparr>ignorecase = False, multiline = False, dotall = False\<rparr> r repl None text"

subsection \<open>Notation for writing the catalog\<close>

definition bs :: char where
  "bs = CHR 0x5C"

definition lits :: "string \<Rightarrow> regex" where
  "lits s = foldr (\<lambda>c. Seq (A (Chr c))) s Eps"

definition seq :: "regex list \<Rightarrow> regex" where
  "seq rs = foldr Seq rs Eps"

fun alts :: "regex list \<Rightarrow> regex" where
  "alts [] = Eps"
| "alts [r] = r"
| "alts (r # rs) = Alt r (alts rs)"

definition opt :: "atom \<Rightarrow> regex" where
  "opt a = Rep a 0 (Some 1) True"

definition star :: "atom \<Rightarrow> regex" where
  "star a = Rep a 0 None True"

definition plus1 :: "atom \<Rightarrow> regex" where
  "plus1 a = Rep a 1 None True"

definition lazy_star :: "atom \<Rightarrow> regex" where
  "lazy_star a = Rep a 0 None False"

definition between :: "atom \<Rightarrow> nat \<Rightarrow> nat \<Rightarrow> regex" where
  "between a lo hi = Rep a lo (Some hi) True"

text \<open>The tail \<open>\.?\s*:?\s*\<close> that closes every label.\<close>

definition label_end :: regex where
  "label_end = seq [opt (Chr CHR ''.''), star WS, opt (Chr CHR '':''), star WS]"

text \<open>\<open>(?=\n\s*(?:w1|w2|...))\<close>\<close>

definition next_label :: "regex list \<Rightarrow> regex" where
  "next_label ws = Look (seq [A (Chr nl), star WS, alts ws])"

text \<open>\<open>[A-Z0-9\-]+\<close>, \<open>[^\n]+\<close>, \<open>.*?\<close>, \<open>[0-9,.\s]+\<close>\<close>

definition ident :: regex where
  "ident = plus1 (In [CRange CHR ''A'' CHR ''Z'', CRange CHR ''0'' CHR ''9'', CChar CHR ''-''])"

definition rest_of_line :: regex where
  "rest_of_line = plus1 (NotIn [CChar nl])"

definition block :: regex where
  "block = lazy_star Any"

definition number :: regex where
  "number = plus1 (In [CRange CHR ''0'' CHR ''9'', CChar CHR '','', CChar CHR ''.'', CSpace])"


text \<open>\<open>(?:Jan|Feb|...|Dec)\<close> and \<open>(?:KG|LBS|MT|TON)\<close>\<close>

definition month :: regex where
  "month = alts [lits ''Jan'', lits ''Feb'', lits ''Mar'', lits ''Apr'', lits ''May'', lits ''Jun'',
                 lits ''Jul'', lits ''Aug'', lits ''Sep'', lits ''Oct'', lits ''Nov'', lits ''Dec'']"

definition weight_unit :: regex where
  "weight_unit = alts [lits ''KG'', lits ''LBS'', lits ''MT'', lits ''TON'']"

section \<open>\<open>FieldPatterns\<close>: the pattern catalog\<close>

definition bol_number_list :: "pattern list" where
  "bol_number_list = [
   \<lparr>src = ''(?:B/L'' @ bs # ''s*(?:No|Number|#)'' @ bs # ''.?'' @ bs # ''s*:?'' @ bs # ''s*)([A-Z0-9'' @ bs # ''-]+)'',
     pre = seq [lits ''B/L'', star WS, alts [lits ''No'', lits ''Number'', lits ''#''], label_end],
     grp = ident,
     post = Eps\<rparr>,
   \<lparr>src = ''(?:BOL'' @ bs # ''s*(?:No|Number|#)'' @ bs # ''.?'' @ bs # ''s*:?'' @ bs # ''s*)([A-Z0-9'' @ bs # ''-]+)'',
     pre = seq [lits ''BOL'', star WS, alts [lits ''No'', lits ''Number'', lits ''#''], label_end],
     grp = ident,
     post = Eps\<rparr>,
   \<lparr>src = ''(?:Bill'' @ bs # ''s*of'' @ bs # ''s*Lading'' @ bs # ''s*(?:No|Number|#)'' @ bs # ''.?'' @ bs # ''s*:?'' @ bs # ''s*)([A-Z0-9'' @ bs # ''-]+)'',
     pre = seq [lits ''Bill'', star WS, lits ''of'', star WS, lits ''Lading'', star WS, alts [lits ''No'', lits ''Number'', lits ''#''], label_end],
     grp = ident,
     post = Eps\<rparr>,
   \<lparr>src = ''(?:Document'' @ bs # ''s*(?:No|Number)'' @ bs # ''.?'' @ bs # ''s*:?'' @ bs # ''s*)([A-Z0-9'' @ bs # ''-]+)'',
     pre = seq [lits ''Document'', star WS, alts [lits ''No'', lits ''Number''], label_end],
     grp = ident,
     post = Eps\<rparr>]"

definition shipper_list :: "pattern list" where
  "shipper_list = [
   \<lparr>src = ''(?:SHIPPER'' @ bs # ''.?'' @ bs # ''s*:?'' @ bs # ''s*)(.*?)(?='' @ bs # ''n'' @ bs # ''s*(?:CONSIGNEE|Consignee|'' @ bs # ''n'' @ bs # ''n))'',
     pre = seq [lits ''SHIPPER'', label_end],
     grp = block,
     post = next_label [lits ''CONSIGNEE'', lits ''Consignee'', lits [nl, nl]]\<rparr>,
   \<lparr>src = ''(?:Shipper'' @ bs # ''.?'' @ bs # ''s*:?'' @ bs # ''s*)(.*?)(?='' @ bs # ''n'' @ bs # ''s*(?:CONSIGNEE|Consignee|'' @ bs # ''n'' @ bs # ''n))'',
     pre = seq [lits ''Shipper'', label_end],
     grp = block,
     post = next_label [lits ''CONSIGNEE'', lits ''Consignee'', lits [nl, nl]]\<rparr>,
   \<lparr>src = ''(?:FROM'' @ bs # ''.?'' @ bs # ''s*:?'' @ bs # ''s*)(.*?)(?='' @ bs # ''n'' @ bs # ''s*(?:TO|CONSIGNEE|'' @ bs # ''n'' @ bs # ''n))'',
     pre = seq [lits ''FROM'', label_end],
     grp = block,
     post = next_label [lits ''TO'', lits ''CONSIGNEE'', lits [nl, nl]]\<rparr>]"

definition consignee_list :: "pattern list" where
  "consignee_list = [
   \<lparr>src = ''(?:CONSIGNEE'' @ bs # ''.?'' @ bs # ''s*:?'' @ bs # ''s*)(.*?)(?='' @ bs # ''n'' @ bs # ''s*(?:NOTIFY|Notify|VESSEL|'' @ bs # ''n'' @ bs # ''n))'',
     pre = seq [lits ''CONSIGNEE'', label_end],
     grp = block,
     post = next_label [lits ''NOTIFY'', lits ''Notify'', lits ''VESSEL'', lits [nl, nl]]\<rparr>,
   \<lparr>src = ''(?:Consignee'' @ bs # ''.?'' @ bs # ''s*:?'' @ bs # ''s*)(.*?)(?='' @ bs # ''n'' @ bs # ''s*(?:NOTIFY|Notify|VESSEL|'' @ bs # ''n'' @ bs # ''n))'',
     pre = seq [lits ''Consignee'', label_end],
     grp = block,
     post = next_label [lits ''NOTIFY'', lits ''Notify'', lits ''VESSEL'', lits [nl, nl]]\<rparr>,
   \<lparr>src = ''(?:TO'' @ bs # ''.?'' @ bs # ''s*:?'' @ bs # ''s*)(.*?)(?='' @ bs # ''n'' @ bs # ''s*(?:NOTIFY|Notify|VESSEL|'' @ bs # ''n'' @ bs # ''n))'',
     pre = seq [lits ''TO'', label_end],
     grp = block,
     post = next_label [lits ''NOTIFY'', lits ''Notify'', lits ''VESSEL'', lits [nl, nl]]\<rparr>]"

definition notify_party_list :: "pattern list" where
  "notify_party_list = [
   \<lparr>src = ''(?:NOTIFY'' @ bs # ''s*PARTY'' @ bs # ''.?'' @ bs # ''s*:?'' @ bs # ''s*)(.*?)(?='' @ bs # ''n'' @ bs # ''s*(?:VESSEL|PORT|GOODS|'' @ bs # ''n'' @ bs # ''n))'',
     pre = seq [lits ''NOTIFY'', star WS, lits ''PARTY'', label_end],
     grp = block,
     post = next_label [lits ''VESSEL'', lits ''PORT'', lits ''GOODS'', lits [nl, nl]]\<rparr>,
   \<lparr>src = ''(?:Notify'' @ bs # ''s*Party'' @ bs # ''.?'' @ bs # ''s*:?'' @ bs # ''s*)(.*?)(?='' @ bs # ''n'' @ bs # ''s*(?:VESSEL|PORT|GOODS|'' @ bs # ''n'' @ bs # ''n))'',
     pre = seq [lits ''Notify'', star WS, lits ''Party'', label_end],
     grp = block,
     post = next_label [lits ''VESSEL'', lits ''PORT'', lits ''GOODS'', lits [nl, nl]]\<rparr>,
   \<lparr>src = ''(?:ALSO'' @ bs # ''s*NOTIFY'' @ bs # ''.?'' @ bs # ''s*:?'' @ bs # ''s*)(.*?)(?='' @ bs # ''n'' @ bs # ''s*(?:VESSEL|PORT|GOODS|'' @ bs # ''n'' @ bs # ''n))'',
     pre = seq [lits ''ALSO'', star WS, lits ''NOTIFY'', label_end],
     grp = block,
     post = next_label [lits ''VESSEL'', lits ''PORT'', lits ''GOODS'', lits [nl, nl]]\<rparr>]"

definition vessel_list :: "pattern list" where
  "vessel_list = [
   \<lparr>src = ''(?:VESSEL'' @ bs # ''.?'' @ bs # ''s*:?'' @ bs # ''s*)([^'' @ bs # ''n]+)'',
     pre = seq [lits ''VESSEL'', label_end],
     grp = rest_of_line,
     post = Eps\<rparr>,
   \<lparr>src = ''(?:Vessel'' @ bs # ''.?'' @ bs # ''s*:?'' @ bs # ''s*)([^'' @ bs # ''n]+)'',
     pre = seq [lits ''Vessel'', label_end],
     grp = rest_of_line,
     post = Eps\<rparr>,
   \<lparr>src = ''(?:SHIP'' @ bs # ''s*NAME'' @ bs # ''.?'' @ bs # ''s*:?'' @ bs # ''s*)([^'' @ bs # ''n]+)'',
     pre = seq [lits ''SHIP'', star WS, lits ''NAME'', label_end],
     grp = rest_of_line,
     post = Eps\<rparr>]"

definition voyage_list :: "pattern list" where
  "voyage_list = [
   \<lparr>src = ''(?:VOYAGE'' @ bs # ''.?'' @ bs # ''s*:?'' @ bs # ''s*)([A-Z0-9'' @ bs # ''-]+)'',
     pre = seq [lits ''VOYAGE'', label_end],
     grp = ident,
     post = Eps\<rparr>,
   \<lparr>src = ''(?:Voyage'' @ bs # ''.?'' @ bs # ''s*:?'' @ bs # ''s*)([A-Z0-9'' @ bs # ''-]+)'',
     pre = seq [lits ''Voyage'', label_end],
     grp = ident,
     post = Eps\<rparr>,
   \<lparr>src = ''(?:VOY'' @ bs # ''.?'' @ bs # ''s*:?'' @ bs # ''s*)([A-Z0-9'' @ bs # ''-]+)'',
     pre = seq [lits ''VOY'', label_end],
     grp = ident,
     post = Eps\<rparr>]"

definition port_of_load_list :: "pattern list" where
  "port_of_load_list = [
   \<lparr>src = ''(?:PORT'' @ bs # ''s*OF'' @ bs # ''s*(?:LOADING|LOAD)'' @ bs # ''.?'' @ bs # ''s*:?'' @ bs # ''s*)([^'' @ bs # ''n]+)'',
     pre = seq [lits ''PORT'', star WS, lits ''OF'', star WS, alts [lits ''LOADING'', lits ''LOAD''], label_end],
     grp = rest_of_line,
     post = Eps\<rparr>,
   \<lparr>src = ''(?:Port'' @ bs # ''s*of'' @ bs # ''s*(?:Loading|Load)'' @ bs # ''.?'' @ bs # ''s*:?'' @ bs # ''s*)([^'' @ bs # ''n]+)'',
     pre = seq [lits ''Port'', star WS, lits ''of'', star WS, alts [lits ''Loading'', lits ''Load''], label_end],
     grp = rest_of_line,
     post = Eps\<rparr>,
   \<lparr>src = ''(?:LOAD'' @ bs # ''s*PORT'' @ bs # ''.?'' @ bs # ''s*:?'' @ bs # ''s*)([^'' @ bs # ''n]+)'',
     pre = seq [lits ''LOAD'', star WS, lits ''PORT'', label_end],
     grp = rest_of_line,
     post = Eps\<rparr>]"

definition port_of_discharge_list :: "pattern list" where
  "port_of_discharge_list = [
   \<lparr>src = ''(?:PORT'' @ bs # ''s*OF'' @ bs # ''s*(?:DISCHARGE|DEST)'' @ bs # ''.?'' @ bs # ''s*:?'' @ bs # ''s*)([^'' @ bs # ''n]+)'',
     pre = seq [lits ''PORT'', star WS, lits ''OF'', star WS, alts [lits ''DISCHARGE'', lits ''DEST''], label_end],
     grp = rest_of_line,
     post = Eps\<rparr>,
   \<lparr>src = ''(?:Port'' @ bs # ''s*of'' @ bs # ''s*(?:Discharge|Dest)'' @ bs # ''.?'' @ bs # ''s*:?'' @ bs # ''s*)([^'' @ bs # ''n]+)'',
     pre = seq [lits ''Port'', star WS, lits ''of'', star WS, alts [lits ''Discharge'', lits ''Dest''], label_end],
     grp = rest_of_line,
     post = Eps\<rparr>,
   \<lparr>src = ''(?:DISCHARGE'' @ bs # ''s*PORT'' @ bs # ''.?'' @ bs # ''s*:?'' @ bs # ''s*)([^'' @ bs # ''n]+)'',
     pre = seq [lits ''DISCHARGE'', star WS, lits ''PORT'', label_end],
     grp = rest_of_line,
     post = Eps\<rparr>]"

definition freight_terms_list :: "pattern list" where
  "freight_terms_list = [
   \<lparr>src = ''(?:FREIGHT'' @ bs # ''.?'' @ bs # ''s*:?'' @ bs # ''s*)(PREPAID|COLLECT|PAYABLE)'',
     pre = seq [lits ''FREIGHT'', label_end],
     grp = alts [lits ''PREPAID'', lits ''COLLECT'', lits ''PAYABLE''],
     post = Eps\<rparr>,
   \<lparr>src = ''(?:Freight'' @ bs # ''.?'' @ bs # ''s*:?'' @ bs # ''s*)(PREPAID|COLLECT|PAYABLE)'',
     pre = seq [lits ''Freight'', label_end],
     grp = alts [lits ''PREPAID'', lits ''COLLECT'', lits ''PAYABLE''],
     post = Eps\<rparr>,
   \<lparr>src = ''(?:TERMS'' @ bs # ''.?'' @ bs # ''s*:?'' @ bs # ''s*)(PREPAID|COLLECT|PAYABLE)'',
     pre = seq [lits ''TERMS'', label_end],
     grp = alts [lits ''PREPAID'', lits ''COLLECT'', lits ''PAYABLE''],
     post = Eps\<rparr>]"

definition date_patterns_list :: "pattern list" where
  "date_patterns_list = [
   \<lparr>src = ''('' @ bs # ''d{1,2}[/-]'' @ bs # ''d{1,2}[/-]'' @ bs # ''d{2,4})'',
     pre = Eps,
     grp = seq [between Dig 1 2, A (In [CChar CHR ''/'', CChar CHR ''-'']), between Dig 1 2, A (In [CChar CHR ''/'', CChar CHR ''-'']), between Dig 2 4],
     post = Eps\<rparr>,
   \<lparr>src = ''('' @ bs # ''d{1,2}'' @ bs # ''s+(?:Jan|Feb|Mar|Apr|May|Jun|Jul|Aug|Sep|Oct|Nov|Dec)[a-z]*'' @ bs # ''s+'' @ bs # ''d{2,4})'',
     pre = Eps,
     grp = seq [between Dig 1 2, plus1 WS, month, star (In [CRange CHR ''a'' CHR ''z'']), plus1 WS, between Dig 2 4],
     post = Eps\<rparr>,
   \<lparr>src = ''((?:Jan|Feb|Mar|Apr|May|Jun|Jul|Aug|Sep|Oct|Nov|Dec)[a-z]*'' @ bs # ''s+'' @ bs # ''d{1,2},?'' @ bs # ''s+'' @ bs # ''d{2,4})'',
     pre = Eps,
     grp = seq [month, star (In [CRange CHR ''a'' CHR ''z'']), plus1 WS, between Dig 1 2, opt (Chr CHR '',''), plus1 WS, between Dig 2 4],
     post = Eps\<rparr>]"

definition weight_patterns_list :: "pattern list" where
  "weight_patterns_list = [
   \<lparr>src = ''(?:GROSS'' @ bs # ''s*WEIGHT'' @ bs # ''.?'' @ bs # ''s*:?'' @ bs # ''s*)([0-9,.'' @ bs # ''s]+(?:KG|LBS|MT|TON))'',
     pre = seq [lits ''GROSS'', star WS, lits ''WEIGHT'', label_end],
     grp = seq [number, weight_unit],
     post = Eps\<rparr>,
   \<lparr>src = ''(?:NET'' @ bs # ''s*WEIGHT'' @ bs # ''.?'' @ bs # ''s*:?'' @ bs # ''s*)([0-9,.'' @ bs # ''s]+(?:KG|LBS|MT|TON))'',
     pre = seq [lits ''NET'', star WS, lits ''WEIGHT'', label_end],
     grp = seq [number, weight_unit],
     post = Eps\<rparr>,
   \<lparr>src = ''(?:WEIGHT'' @ bs # ''.?'' @ bs # ''s*:?'' @ bs # ''s*)([0-9,.'' @ bs # ''s]+(?:KG|LBS|MT|TON))'',
     pre = seq [lits ''WEIGHT'', label_end],
     grp = seq [number, weight_unit],
     post = Eps\<rparr>]"

definition quantity_patterns_list :: "pattern list" where
  "quantity_patterns_list = [
   \<lparr>src = ''(?:PACKAGES'' @ bs # ''.?'' @ bs # ''s*:?'' @ bs # ''s*)([0-9,.'' @ bs # ''s]+)'',
     pre = seq [lits ''PACKAGES'', label_end],
     grp = number,
     post = Eps\<rparr>,
   \<lparr>src = ''(?:QUANTITY'' @ bs # ''.?'' @ bs # ''s*:?'' @ bs # ''s*)([0-9,.'' @ bs # ''s]+)'',
     pre = seq [lits ''QUANTITY'', label_end],
     grp = number,
     post = Eps\<rparr>,
   \<lparr>src = ''(?:QTY'' @ bs # ''.?'' @ bs # ''s*:?'' @ bs # ''s*)([0-9,.'' @ bs # ''s]+)'',
     pre = seq [lits ''QTY'', label_end],
     grp = number,
     post = Eps\<rparr>]"

text \<open>The dictionary \<open>self.patterns\<close>, and \<open>get_patterns\<close> with its default \<open>[]\<close>.\<close>

definition patterns :: "(string \<times> pattern list) list" where
  "patterns = [
     (''bol_number'', bol_number_list),
     (''shipper'', shipper_list),
     (''consignee'', consignee_list),
     (''notify_party'', notify_party_list),
     (''vessel'', vessel_list),
     (''voyage'', voyage_list),
     (''port_of_load'', port_of_load_list),
     (''port_of_discharge'', port_of_discharge_list),
     (''freight_terms'', freight_terms_list),
     (''date_patterns'', date_patterns_list),
     (''weight_patterns'', weight_patterns_list),
     (''quantity_patterns'', quantity_patterns_list)]"

definition get_patterns :: "string \<Rightarrow> pattern list" where
  "get_patterns field_type = (case map_of patterns field_type of Some ps \<Rightarrow> ps | None \<Rightarrow> [])"

section \<open>\<open>BOLDataExtractor\<close>: the field extractor\<close>

text \<open>\<open>re.IGNORECASE | re.MULTILINE | re.DOTALL\<close>, and \<open>re.IGNORECASE\<close> alone.\<close>

definition IMS :: flags where
  "IMS = \<lparr>ignorecase = True, multiline = True, dotall = True\<rparr>"

definition I_only :: flags where
  "I_only = \<lparr>ignorecase = True, multiline = False, dotall = False\<rparr>"

text \<open>The class \<open>[:\-\s]\<close> of \<open>clean_field_data\<close>.\<close>

definition artifact :: atom where
  "artifact = In [CChar CHR '':'', CChar CHR ''-'', CSpace]"

definition clean_field_data :: "string \<Rightarrow> string" where
  "clean_field_data data =
     (let cleaned = re_sub (plus1 WS) '' '' (strip data);
          cleaned = re_sub (Seq Bol (plus1 artifact)) [] cleaned;
          cleaned = re_sub (Seq (plus1 artifact) Eol) [] cleaned
      in cleaned)"

text \<open>The loop of \<open>extract_field\<close> over the patterns of one field type.\<close>

fun field_loop :: "pattern list \<Rightarrow> string \<Rightarrow> string" where
  "field_loop [] text = []"
| "field_loop (p # ps) text =
     (case re_search IMS p text of
        Some g \<Rightarrow>
          (let result = strip g in
           if result \<noteq> [] then clean_field_data result else field_loop ps text)
      | None \<Rightarrow> field_loop ps text)"

definition extract_field :: "string \<Rightarrow> string \<Rightarrow> string" where
  "extract_field text field_type = field_loop (get_patterns field_type) text"

definition extract_bol_number :: "string \<Rightarrow> string" where
  "extract_bol_number text = extract_field text ''bol_number''"

definition split_name_address :: "string \<Rightarrow> string \<times> string" where
  "split_name_address text =
     (if text = [] then ([], [])
      else (let lines = split_chr nl text;
                name = strip (hd lines);
                address = (if length lines > 1 then strip (join [nl] (tl lines)) else [])
            in (name, address)))"

definition extract_parties :: "string \<Rightarrow> string \<times> string \<times> string \<times> string \<times> string \<times> string" where
  "extract_parties text =
     (let shipper_text = extract_field text ''shipper'';
          consignee_text = extract_field text ''consignee'';
          notify_text = extract_field text ''notify_party'';
          (shipper_name, shipper_address) = split_name_address shipper_text;
          (consignee_name, consignee_address) = split_name_address consignee_text;
          (notify_name, notify_address) = split_name_address notify_text
      in (shipper_name, shipper_address, consignee_name, consignee_address,
          notify_name, notify_address))"

definition extract_vessel_info :: "string \<Rightarrow> string \<times> string" where
  "extract_vessel_info text = (extract_field text ''vessel'', extract_field text ''voyage'')"

definition extract_ports :: "string \<Rightarrow> string \<times> string" where
  "extract_ports text =
     (extract_field text ''port_of_load'', extract_field text ''port_of_discharge'')"

fun dates_loop :: "pattern list \<Rightarrow> string \<Rightarrow> string" where
  "dates_loop [] text = []"
| "dates_loop (p # ps) text =
     (case re_findall I_only p text of
        m # ms \<Rightarrow> m
      | [] \<Rightarrow> dates_loop ps text)"

definition extract_dates :: "string \<Rightarrow> string" where
  "extract_dates text = dates_loop (get_patterns ''date_patterns'') text"

text \<open>The weight loop carries \<open>(gross_weight, net_weight)\<close>.\<close>

fun weights_loop :: "pattern list \<Rightarrow> string \<Rightarrow> string \<times> string \<Rightarrow> string \<times> string" where
  "weights_loop [] text (gross_weight, net_weight) = (gross_weight, net_weight)"
| "weights_loop (p # ps) text (gross_weight, net_weight) =
     (case re_findall I_only p text of
        m # ms \<Rightarrow>
          if contains ''GROSS'' (upper (src p)) then weights_loop ps text (m, net_weight)
          else if contains ''NET'' (upper (src p)) then weights_loop ps text (gross_weight, m)
          else if gross_weight = [] then weights_loop ps text (m, net_weight)
          else weights_loop ps text (gross_weight, net_weight)
      | [] \<Rightarrow> weights_loop ps text (gross_weight, net_weight))"

fun quantity_loop :: "pattern list \<Rightarrow> string \<Rightarrow> string" where
  "quantity_loop [] text = []"
| "quantity_loop (p # ps) text =
     (case re_search I_only p text of
        Some g \<Rightarrow> strip g
      | None \<Rightarrow> quantity_loop ps text)"

definition extract_weights_quantities :: "string \<Rightarrow> string \<times> string \<times> string" where
  "extract_weights_quantities text =
     (let weight_patterns = get_patterns ''weight_patterns'';
          quantity_patterns = get_patterns ''quantity_patterns'';
          (gross_weight, net_weight) = weights_loop weight_patterns text ([], []);
          quantity = quantity_loop quantity_patterns text
      in (gross_weight, net_weight, quantity))"

definition extract_freight_terms :: "string \<Rightarrow> string" where
  "extract_freight_terms text = extract_field text ''freight_terms''"


section \<open>\<open>BOLData\<close> and \<open>extract_all_fields\<close>\<close>

record BOLData =
  filename :: string
  bol_number :: string
  shipper_name :: string
  shipper_address :: string
  consignee_name :: string
  consignee_address :: string
  notify_party_name :: string
  notify_party_address :: string
  vessel_name :: string
  voyage_number :: string
  port_of_load :: string
  port_of_discharge :: string
  description_of_goods :: string
  quantity_packages :: string
  gross_weight :: string
  net_weight :: string
  freight_terms :: string
  date_of_issue :: string
  extraction_method :: string
  extraction_confidence :: string
  processing_notes :: string
  extraction_failed :: bool

text \<open>\<open>BOLData()\<close>: the defaults of the dataclass.\<close>

definition BOLData_new :: BOLData where
  "BOLData_new = \<lparr>filename = [], bol_number = [], shipper_name = [], shipper_address = [],
     consignee_name = [], consignee_address = [], notify_party_name = [],
     notify_party_address = [], vessel_name = [], voyage_number = [], port_of_load = [],
     port_of_discharge = [], description_of_goods = [], quantity_packages = [],
     gross_weight = [], net_weight = [], freight_terms = [], date_of_issue = [],
     extraction_method = [], extraction_confidence = ''medium'', processing_notes = [],
     extraction_failed = False\<rparr>"

text \<open>
  A table is the list of its columns, each a label and its cells; a missing cell
  (\<open>NaN\<close>, removed by \<open>dropna\<close>) is \<open>None\<close>. Labels and cells are strings, and the
  labels of one table are distinct.
\<close>

type_synonym table = "(string \<times> string option list) list"

definition description_columns :: "table \<Rightarrow> (string \<times> string option list) list" where
  "description_columns t =
     filter (\<lambda>(col, cells). list_ex (\<lambda>keyword. contains keyword (upper col))
        [''DESCRIPTION'', ''GOODS'', ''CARGO'', ''COMMODITY'']) t"

definition dropna :: "string option list \<Rightarrow> string list" where
  "dropna cells = concat (map (\<lambda>cell. case cell of Some v \<Rightarrow> [v] | None \<Rightarrow> []) cells)"

definition parse_cargo_description_table :: "table list \<Rightarrow> string" where
  "parse_cargo_description_table tables =
     (let cargo_descriptions =
            concat (map (\<lambda>t. concat (map (\<lambda>(col, cells). dropna cells) (description_columns t))) tables)
      in if cargo_descriptions \<noteq> [] then join ''; '' cargo_descriptions else [])"

definition goods_patterns :: "pattern list" where
  "goods_patterns = [
   \<lparr>src = ''(?:DESCRIPTION'' @ bs # ''s*OF'' @ bs # ''s*GOODS'' @ bs # ''.?'' @ bs # ''s*:?'' @ bs # ''s*)(.*?)(?='' @ bs # ''n'' @ bs # ''s*(?:[A-Z]+:|$))'',
     pre = seq [lits ''DESCRIPTION'', star WS, lits ''OF'', star WS, lits ''GOODS'', label_end],
     grp = block,
     post = Look (seq [A (Chr nl), star WS, Alt (seq [plus1 (In [CRange CHR ''A'' CHR ''Z'']), A (Chr CHR '':'')]) Eol])\<rparr>,
   \<lparr>src = ''(?:GOODS'' @ bs # ''.?'' @ bs # ''s*:?'' @ bs # ''s*)(.*?)(?='' @ bs # ''n'' @ bs # ''s*(?:[A-Z]+:|$))'',
     pre = seq [lits ''GOODS'', label_end],
     grp = block,
     post = Look (seq [A (Chr nl), star WS, Alt (seq [plus1 (In [CRange CHR ''A'' CHR ''Z'']), A (Chr CHR '':'')]) Eol])\<rparr>,
   \<lparr>src = ''(?:CARGO'' @ bs # ''.?'' @ bs # ''s*:?'' @ bs # ''s*)(.*?)(?='' @ bs # ''n'' @ bs # ''s*(?:[A-Z]+:|$))'',
     pre = seq [lits ''CARGO'', label_end],
     grp = block,
     post = Look (seq [A (Chr nl), star WS, Alt (seq [plus1 (In [CRange CHR ''A'' CHR ''Z'']), A (Chr CHR '':'')]) Eol])\<rparr>]"

text \<open>The loop over \<open>goods_patterns\<close>: the first pattern that matches sets the
  description, whatever it captured.\<close>

fun goods_loop :: "pattern list \<Rightarrow> string \<Rightarrow> string \<Rightarrow> string" where
  "goods_loop [] text description = description"
| "goods_loop (p # ps) text description =
     (case re_search IMS p text of
        Some g \<Rightarrow> clean_field_data g
      | None \<Rightarrow> goods_loop ps text description)"

text \<open>
  An exception object is its message, \<open>str(e)\<close>. The methods that
  \<open>extract_all_fields\<close> calls are reached through \<open>self\<close> (and through a fresh
  \<open>TableParser\<close>), so a caller or a test can replace any of them by one that raises;
  \<open>methods\<close> is the record of these callees, each returning its value or the exception
  it raised.
\<close>

datatype error = Exception string

fun str_of :: "error \<Rightarrow> string" where
  "str_of (Exception msg) = msg"

record methods =
  m_extract_bol_number :: "string \<Rightarrow> error + string"
  m_extract_parties :: "string \<Rightarrow> error + string \<times> string \<times> string \<times> string \<times> string \<times> string"
  m_extract_vessel_info :: "string \<Rightarrow> error + string \<times> string"
  m_extract_ports :: "string \<Rightarrow> error + string \<times> string"
  m_extract_dates :: "string \<Rightarrow> error + string"
  m_extract_weights_quantities :: "string \<Rightarrow> error + string \<times> string \<times> string"
  m_extract_freight_terms :: "string \<Rightarrow> error + string"
  m_parse_cargo_description_table :: "table list \<Rightarrow> error + string"

text \<open>The methods as \<open>app.py\<close> defines them: none of them raises.\<close>

definition BOLDataExtractor :: methods where
  "BOLDataExtractor = \<lparr>
     m_extract_bol_number = (\<lambda>text. Inr (extract_bol_number text)),
     m_extract_parties = (\<lambda>text. Inr (extract_parties text)),
     m_extract_vessel_info = (\<lambda>text. Inr (extract_vessel_info text)),
     m_extract_ports = (\<lambda>text. Inr (extract_ports text)),
     m_extract_dates = (\<lambda>text. Inr (extract_dates text)),
     m_extract_weights_quantities = (\<lambda>text. Inr (extract_weights_quantities text)),
     m_extract_freight_terms = (\<lambda>text. Inr (extract_freight_terms text)),
     m_parse_cargo_description_table = (\<lambda>tables. Inr (parse_cargo_description_table tables))\<rparr>"

text \<open>
  A statement of the \<open>try\<close> block takes the record built so far and returns it
  updated, or the exception it raised. \<open>try_body\<close> lists the statements of the block
  in order; \<open>exec\<close> runs them and stops at the first exception, keeping the record as
  it stood.
\<close>

type_synonym stmt = "BOLData \<Rightarrow> error + BOLData"

definition assign :: "error + 'a \<Rightarrow> ('a \<Rightarrow> BOLData) \<Rightarrow> error + BOLData" where
  "assign rhs store = (case rhs of Inl e \<Rightarrow> Inl e | Inr v \<Rightarrow> Inr (store v))"

definition try_body :: "methods \<Rightarrow> string \<Rightarrow> table list \<Rightarrow> stmt list" where
  "try_body self text tables = [
     (\<lambda>bol_data. assign (m_extract_bol_number self text)
        (\<lambda>v. bol_data\<lparr>bol_number := v\<rparr>)),
     (\<lambda>bol_data. assign (m_extract_parties self text)
        (\<lambda>(sn, sa, cn, ca, nn, na). bol_data\<lparr>shipper_name := sn, shipper_address := sa,
           consignee_name := cn, consignee_address := ca,
           notify_party_name := nn, notify_party_address := na\<rparr>)),
     (\<lambda>bol_data. assign (m_extract_vessel_info self text)
        (\<lambda>(vessel, voyage). bol_data\<lparr>vessel_name := vessel, voyage_number := voyage\<rparr>)),
     (\<lambda>bol_data. assign (m_extract_ports self text)
        (\<lambda>(load, discharge). bol_data\<lparr>port_of_load := load, port_of_discharge := discharge\<rparr>)),
     (\<lambda>bol_data. assign (m_extract_dates self text)
        (\<lambda>v. bol_data\<lparr>date_of_issue := v\<rparr>)),
     (\<lambda>bol_data. assign (m_extract_weights_quantities self text)
        (\<lambda>(gross, net, quantity). bol_data\<lparr>gross_weight := gross, net_weight := net,
           quantity_packages := quantity\<rparr>)),
     (\<lambda>bol_data. assign (m_extract_freight_terms self text)
        (\<lambda>v. bol_data\<lparr>freight_terms := v\<rparr>)),
     (\<lambda>bol_data. if tables \<noteq> []
        then assign (m_parse_cargo_description_table self tables)
               (\<lambda>v. bol_data\<lparr>description_of_goods := v\<rparr>)
        else Inr bol_data),
     (\<lambda>bol_data. if description_of_goods bol_data = []
        then Inr (bol_data\<lparr>description_of_goods :=
               goods_loop goods_patterns text (description_of_goods bol_data)\<rparr>)
        else Inr bol_data)]"

fun exec :: "stmt list \<Rightarrow> BOLData \<Rightarrow> BOLData \<times> error option" where
  "exec [] bol_data = (bol_data, None)"
| "exec (st # sts) bol_data =
     (case st bol_data of
        Inl e \<Rightarrow> (bol_data, Some e)
      | Inr bol_data' \<Rightarrow> exec sts bol_data')"

definition extract_all_fields_of :: "methods \<Rightarrow> string \<Rightarrow> table list \<Rightarrow> string \<Rightarrow> BOLData" where
  "extract_all_fields_of self text tables fname =
     (case exec (try_body self text tables) (BOLData_new\<lparr>filename := fname\<rparr>) of
        (bol_data, None) \<Rightarrow> bol_data
      | (bol_data, Some e) \<Rightarrow>
          bol_data\<lparr>extraction_failed := True,
                   processing_notes := ''Extraction error: '' @ str_of e\<rparr>)"

definition extract_all_fields :: "string \<Rightarrow> table list \<Rightarrow> string \<Rightarrow> BOLData" where
  "extract_all_fields text tables fname = extract_all_fields_of BOLDataExtractor text tables fname"

section \<open>\<open>PDFProcessor\<close>: quality assessment and method selection\<close>

record PDFProcessor =
  min_text_threshold :: int

definition PDFProcessor_new :: PDFProcessor where
  "PDFProcessor_new = \<lparr>min_text_threshold = 100\<rparr>"

text \<open>
  What the two collaborators do with one PDF file. \<open>native_pages\<close> is what
  \<open>page.extract_text()\<close> returns page by page (\<open>None\<close> for a page without text), and
  \<open>ocr_pages\<close> is what \<open>pytesseract.image_to_string\<close> returns page by page; the outer
  \<open>None\<close> stands for a collaborator that raises. The log records the collaborators
  called, in order.
\<close>

record pdf_file =
  native_pages :: "string option list option"
  ocr_pages :: "string list option"

datatype call = Native | OCR

definition extract_text_pdfplumber ::
    "PDFProcessor \<Rightarrow> pdf_file \<Rightarrow> call list \<Rightarrow> (string \<times> bool) \<times> call list" where
  "extract_text_pdfplumber self f log =
     (case native_pages f of
        None \<Rightarrow> (([], False), log @ [Native])
      | Some pages \<Rightarrow>
          (let text_content = concat (map (\<lambda>page_text.
                 case page_text of
                   None \<Rightarrow> []
                 | Some t \<Rightarrow> if t \<noteq> [] then t @ [nl] else []) pages);
               success = (int (length (strip text_content)) \<ge> min_text_threshold self)
           in ((text_content, success), log @ [Native])))"

definition extract_text_ocr ::
    "PDFProcessor \<Rightarrow> pdf_file \<Rightarrow> call list \<Rightarrow> (string \<times> bool) \<times> call list" where
  "extract_text_ocr self f log =
     (case ocr_pages f of
        None \<Rightarrow> (([], False), log @ [OCR])
      | Some pages \<Rightarrow>
          (let text_content = concat (map (\<lambda>ocr_text. ocr_text @ [nl]) pages);
               success = (int (length (strip text_content)) \<ge> min_text_threshold self)
           in ((text_content, success), log @ [OCR])))"

definition assess_text_quality :: "string \<Rightarrow> string" where
  "assess_text_quality text =
     (if length (strip text) < 50 then ''low''
      else (let has_structured_fields = list_ex (\<lambda>keyword. contains keyword (upper text))
                    [''SHIPPER'', ''CONSIGNEE'', ''VESSEL'', ''B/L'', ''BOL''];
                has_addresses = (count_chr nl text > 5)
            in if has_structured_fields \<and> has_addresses then ''high''
               else if has_structured_fields \<or> has_addresses then ''medium''
               else ''low''))"

text \<open>\<open>process_pdf\<close> returns \<open>(text_content, extraction_method, confidence)\<close>, here
  with the log of the collaborators it called.\<close>

fun process_pdf ::
    "PDFProcessor \<Rightarrow> pdf_file \<Rightarrow> call list \<Rightarrow> (string \<times> string \<times> string) \<times> call list" where
  "process_pdf self f log =
     (case extract_text_pdfplumber self f log of
        ((text_content, text_success), log1) \<Rightarrow>
          (let extraction_method = ''text'';
               confidence = assess_text_quality text_content
           in if \<not> text_success \<or> confidence = ''low''
              then (case extract_text_ocr self f log1 of
                      ((ocr_text, ocr_success), log2) \<Rightarrow>
                        if ocr_success
                        then ((ocr_text, ''ocr'', assess_text_quality ocr_text), log2)
                        else if text_content \<noteq> []
                        then ((text_content, ''text_fallback'', confidence), log2)
                        else ((text_content, extraction_method, confidence), log2))
              else ((text_content, extraction_method, confidence), log1)))"


section \<open>Vocabulary of the specification\<close>

text \<open>\<open>w\<close> occurs in \<open>s\<close> as a contiguous piece.\<close>

definition occurs_in :: "string \<Rightarrow> string \<Rightarrow> bool" where
  "occurs_in w s = (\<exists>u v. s = u @ w @ v)"

text \<open>The two indicators of the quality rule, in the words of the specification: the
  text, compared without regard to case, holds one of the five keywords; the text holds
  more than five newline characters.\<close>

definition has_keywords :: "string \<Rightarrow> bool" where
  "has_keywords text = (\<exists>keyword \<in> set [''SHIPPER'', ''CONSIGNEE'', ''VESSEL'', ''B/L'', ''BOL''].
     occurs_in keyword (upper text))"

definition has_structure :: "string \<Rightarrow> bool" where
  "has_structure text = (5 < length (filter (\<lambda>c. c = nl) text))"

text \<open>Pattern \<open>p\<close> yields nothing usable on \<open>text\<close>: it does not match, or its group
  is empty once trimmed.\<close>

definition no_result :: "pattern \<Rightarrow> string \<Rightarrow> bool" where
  "no_result p text = (case re_search IMS p text of None \<Rightarrow> True | Some g \<Rightarrow> strip g = [])"

text \<open>The text of the end-to-end scenario.\<close>

definition scenario_text :: string where
  "scenario_text = ''B/L NUMBER: BOL123456789\<newline>SHIPPER:\<newline>ABC Shipping Company\<newline>123 Export Lane\<newline>CONSIGNEE:\<newline>XYZ Import Corp\<newline>456 Harbor Blvd\<newline>VESSEL: MV Ocean Carrier\<newline>VOYAGE: VOY2024001\<newline>PORT OF LOADING: Los Angeles, CA\<newline>PORT OF DISCHARGE: New York, NY\<newline>FREIGHT: PREPAID\<newline>GROSS WEIGHT: 2,500 KG\<newline>NET WEIGHT: 2,200 KG\<newline>PACKAGES: 100 CTNS\<newline>DATE: 15/03/2024''"

text \<open>The flags of a call without a \<open>flags\<close> argument.\<close>

definition no_flags :: flags where
  "no_flags = \<lparr>ignorecase = False, multiline = False, dotall = False\<rparr>"

text \<open>The character before the position reached after reading \<open>xs\<close>.\<close>

definition lastp :: "char option \<Rightarrow> string \<Rightarrow> char option" where
  "lastp prev xs = (if xs = [] then prev else Some (last xs))"

text \<open>What \<open>clean_field_data\<close> computes, in terms of lists: white space runs
  become one space, then the artifact characters (colon, hyphen, white space) are taken
  off both ends. A \<open>tidy\<close> text has no white space but single spaces.\<close>

definition is_artifact :: "char \<Rightarrow> bool" where
  "is_artifact c = (c = CHR '':'' \<or> c = CHR ''-'' \<or> isspace c)"

function collapse_ws :: "string \<Rightarrow> string" where
  "collapse_ws [] = []"
| "collapse_ws (c # s) =
     (if isspace c then CHR '' '' # collapse_ws (dropWhile isspace s) else c # collapse_ws s)"
  by pat_completeness auto

termination
  by (relation "measure length") (auto simp: length_dropWhile_le less_Suc_eq_le)

fun tidy :: "string \<Rightarrow> bool" where
  "tidy [] = True"
| "tidy (c # s) = ((isspace c \<longrightarrow> c = CHR '' '' \<and> (s \<noteq> [] \<longrightarrow> \<not> isspace (hd s))) \<and> tidy s)"

definition rstrip_artifact :: "string \<Rightarrow> string" where
  "rstrip_artifact s = rev (dropWhile is_artifact (rev s))"

text \<open>The least number of characters a match of an expression consumes.\<close>

fun minlen :: "regex \<Rightarrow> nat" where
  "minlen Eps = 0"
| "minlen (A a) = 1"
| "minlen (Rep a lo hi greedy) = lo"
| "minlen (Seq r1 r2) = minlen r1 + minlen r2"
| "minlen (Alt r1 r2) = min (minlen r1) (minlen r2)"
| "minlen (Look r) = 0"
| "minlen Bol = 0"
| "minlen Eol = 0"

text \<open>The number of characters before the leftmost match.\<close>

fun search_pos :: "flags \<Rightarrow> regex \<Rightarrow> regex \<Rightarrow> regex \<Rightarrow> char option \<Rightarrow> string \<Rightarrow> nat option" where
  "search_pos fl a g b prev [] = (case match_at fl a g b prev [] of Some m \<Rightarrow> Some 0 | None \<Rightarrow> None)"
| "search_pos fl a g b prev (c # s) =
     (case match_at fl a g b prev (c # s) of
        Some m \<Rightarrow> Some 0
      | None \<Rightarrow> map_option Suc (search_pos fl a g b (Some c) s))"

definition first_pos :: "flags \<Rightarrow> pattern \<Rightarrow> string \<Rightarrow> nat option" where
  "first_pos fl p text = search_pos fl (pre p) (grp p) (post p) None text"

text \<open>The three weight patterns, by label.\<close>

definition gross_weight_pattern :: pattern where
  "gross_weight_pattern = weight_patterns_list ! 0"

definition net_weight_pattern :: pattern where
  "net_weight_pattern = weight_patterns_list ! 1"

definition generic_weight_pattern :: pattern where
  "generic_weight_pattern = weight_patterns_list ! 2"

text \<open>\<open>WEIGHT\.?\s*:?\s*\<close>, the label of the generic weight pattern.\<close>

definition weight_label :: regex where
  "weight_label = seq [lits ''WEIGHT'', label_end]"

section \<open>Properties of the text primitives\<close>

declare sub_from.simps [simp del]

declare findall_from.simps [simp del]

text \<open>The character tables read off the bits of a character, for evaluation.\<close>

lemma isspace_bits [code]:
  "isspace (Char b0 b1 b2 b3 b4 b5 b6 b7) =
     (\<not> b6 \<and>
      ((\<not> b7 \<and> \<not> b5 \<and> \<not> b4 \<and> b3 \<and> ((\<not> b2 \<and> (b1 \<or> b0)) \<or> (b2 \<and> \<not> b1))) \<or>
       (\<not> b7 \<and> \<not> b5 \<and> b4 \<and> b3 \<and> b2) \<or>
       (b5 \<and> \<not> b4 \<and> \<not> b3 \<and> \<not> b2 \<and> \<not> b1 \<and> \<not> b0) \<or>
       (b7 \<and> \<not> b5 \<and> \<not> b4 \<and> \<not> b3 \<and> b2 \<and> \<not> b1 \<and> b0)))"
  by (cases b0; cases b1; cases b2; cases b3; cases b4; cases b5; cases b6; cases b7;
      simp add: isspace_def code_def)

lemma isdigit_bits [code]:
  "isdigit (Char b0 b1 b2 b3 b4 b5 b6 b7) =
     (\<not> b7 \<and> \<not> b6 \<and> b5 \<and> b4 \<and> \<not> (b3 \<and> (b2 \<or> b1)))"
  by (cases b0; cases b1; cases b2; cases b3; cases b4; cases b5; cases b6; cases b7;
      simp add: isdigit_def code_def)

lemma lower_chr_bits [code]:
  "lower_chr (Char b0 b1 b2 b3 b4 b5 b6 b7) =
     Char b0 b1 b2 b3 b4
       (b5 \<or> (b6 \<and>
          ((\<not> b7 \<and> (b4 \<or> b3 \<or> b2 \<or> b1 \<or> b0) \<and> \<not> (b4 \<and> b3 \<and> (b2 \<or> (b1 \<and> b0)))) \<or>
           (b7 \<and> \<not> (b4 \<and> b2 \<and> b1 \<and> b0)))))
       b6 b7"
  by (cases b0; cases b1; cases b2; cases b3; cases b4; cases b5; cases b6; cases b7;
      simp add: lower_chr_def code_def char_of_def bit_Suc_0_iff)

lemma upper_chr_bits [code]:
  "upper_chr (Char b0 b1 b2 b3 b4 b5 b6 b7) =
     Char b0 b1 b2 b3 b4
       (b5 \<and> \<not> (b6 \<and>
          ((\<not> b7 \<and> (b4 \<or> b3 \<or> b2 \<or> b1 \<or> b0) \<and> \<not> (b4 \<and> b3 \<and> (b2 \<or> (b1 \<and> b0)))) \<or>
           (b7 \<and> \<not> (b4 \<and> b2 \<and> b1 \<and> b0)))))
       b6 b7"
  by (cases b0; cases b1; cases b2; cases b3; cases b4; cases b5; cases b6; cases b7;
      simp add: upper_chr_def code_def char_of_def bit_Suc_0_iff)


lemma starts_with_iff: "starts_with w s \<longleftrightarrow> (\<exists>v. s = w @ v)"
  by (induction w s rule: starts_with.induct) auto

lemma contains_iff: "contains w s \<longleftrightarrow> occurs_in w s"
proof (induction s)
  case Nil
  then show ?case by (auto simp: occurs_in_def)
next
  case (Cons c s)
  show ?case
  proof
    assume "contains w (c # s)"
    then consider "starts_with w (c # s)" | "contains w s" by auto
    then show "occurs_in w (c # s)"
    proof cases
      case 1
      then obtain v where "c # s = w @ v" using starts_with_iff by blast
      then have "c # s = [] @ w @ v" by simp
      then show ?thesis unfolding occurs_in_def by blast
    next
      case 2
      then obtain u v where "s = u @ w @ v" using Cons.IH unfolding occurs_in_def by blast
      then have "c # s = (c # u) @ w @ v" by simp
      then show ?thesis unfolding occurs_in_def by blast
    qed
  next
    assume "occurs_in w (c # s)"
    then obtain u v where uv: "c # s = u @ w @ v" unfolding occurs_in_def by blast
    show "contains w (c # s)"
    proof (cases u)
      case Nil
      then have "starts_with w (c # s)" using uv starts_with_iff by auto
      then show ?thesis by simp
    next
      case (Cons d u')
      then have "s = u' @ w @ v" using uv by simp
      then have "contains w s" using Cons.IH unfolding occurs_in_def by blast
      then show ?thesis by simp
    qed
  qed
qed

lemma has_keywords_code:
  "has_keywords text = list_ex (\<lambda>keyword. contains keyword (upper text))
     [''SHIPPER'', ''CONSIGNEE'', ''VESSEL'', ''B/L'', ''BOL'']"
  unfolding has_keywords_def list_ex_iff contains_iff ..

lemma strip_Nil: "strip [] = []"
  by (simp add: strip_def)

section \<open>The catalog by field type\<close>

lemma gp_bol_number: "get_patterns ''bol_number'' = bol_number_list"
  and gp_shipper: "get_patterns ''shipper'' = shipper_list"
  and gp_consignee: "get_patterns ''consignee'' = consignee_list"
  and gp_notify_party: "get_patterns ''notify_party'' = notify_party_list"
  and gp_vessel: "get_patterns ''vessel'' = vessel_list"
  and gp_voyage: "get_patterns ''voyage'' = voyage_list"
  and gp_port_of_load: "get_patterns ''port_of_load'' = port_of_load_list"
  and gp_port_of_discharge: "get_patterns ''port_of_discharge'' = port_of_discharge_list"
  and gp_freight_terms: "get_patterns ''freight_terms'' = freight_terms_list"
  and gp_date_patterns: "get_patterns ''date_patterns'' = date_patterns_list"
  and gp_weight_patterns: "get_patterns ''weight_patterns'' = weight_patterns_list"
  and gp_quantity_patterns: "get_patterns ''quantity_patterns'' = quantity_patterns_list"
  by (simp_all add: get_patterns_def patterns_def)

section \<open>The quality assessor\<close>

text \<open>
  C5. For every text, \<open>assess_text_quality\<close> returns \<open>low\<close> when the trimmed text has
  fewer than 50 characters. Otherwise, with \<open>has_keywords\<close> (one of SHIPPER, CONSIGNEE,
  VESSEL, B/L, BOL occurs in the text, compared without regard to case) and
  \<open>has_structure\<close> (more than five newlines), it returns \<open>high\<close> when both hold,
  \<open>medium\<close> when exactly one holds and \<open>low\<close> when neither holds.
\<close>

theorem assess_text_quality_table:
  "(length (strip text) < 50 \<longrightarrow> assess_text_quality text = ''low'') \<and>
   (\<not> length (strip text) < 50 \<longrightarrow>
      (has_keywords text \<and> has_structure text \<longrightarrow> assess_text_quality text = ''high'') \<and>
      (has_keywords text \<noteq> has_structure text \<longrightarrow> assess_text_quality text = ''medium'') \<and>
      (\<not> has_keywords text \<and> \<not> has_structure text \<longrightarrow> assess_text_quality text = ''low''))"
  unfolding has_keywords_code has_structure_def assess_text_quality_def count_chr_def Let_def
  by auto

text \<open>The four rows of the table at four texts: a short one, one with keywords and
  lines, one with a keyword on a single line, and a long line without any keyword.\<close>

theorem assess_text_quality_table_witness:
  "assess_text_quality ''Short'' = ''low'' \<and>
   assess_text_quality ''SHIPPER: Acme\<newline>1 Main St\<newline>Oslo\<newline>Norway\<newline>VESSEL: MV T\<newline>VOYAGE: 1\<newline>END'' = ''high'' \<and>
   assess_text_quality ''This document contains VESSEL information and BOL details'' = ''medium'' \<and>
   assess_text_quality ''Nothing in this line of plain words names a party or a ship'' = ''low''"
proof -
  define s where "s = ''Short''"
  define h where "h = ''SHIPPER: Acme\<newline>1 Main St\<newline>Oslo\<newline>Norway\<newline>VESSEL: MV T\<newline>VOYAGE: 1\<newline>END''"
  define m where "m = ''This document contains VESSEL information and BOL details''"
  define l where "l = ''Nothing in this line of plain words names a party or a ship''"
  have s1: "length (strip s) < 50" unfolding s_def by code_simp
  have h1: "\<not> length (strip h) < 50" unfolding h_def by code_simp
  have h2: "has_keywords h" unfolding has_keywords_code h_def by code_simp
  have h3: "has_structure h" unfolding h_def by code_simp
  have m1: "\<not> length (strip m) < 50" unfolding m_def by code_simp
  have m2: "has_keywords m" unfolding has_keywords_code m_def by code_simp
  have m3: "\<not> has_structure m" unfolding m_def by code_simp
  have l1: "\<not> length (strip l) < 50" unfolding l_def by code_simp
  have l2: "\<not> has_keywords l" unfolding has_keywords_code l_def by code_simp
  have l3: "\<not> has_structure l" unfolding l_def by code_simp
  have rs: "assess_text_quality s = ''low''"
    using assess_text_quality_table[of s] s1 by blast
  have rh: "assess_text_quality h = ''high''"
    using assess_text_quality_table[of h] h1 h2 h3 by blast
  have rm: "assess_text_quality m = ''medium''"
    using assess_text_quality_table[of m] m1 m2 m3 by blast
  have rl: "assess_text_quality l = ''low''"
    using assess_text_quality_table[of l] l1 l2 l3 by blast
  show ?thesis
    using rs rh rm rl unfolding s_def h_def m_def l_def by (intro conjI)
qed

section \<open>The extraction method selector\<close>

lemma assess_empty: "assess_text_quality [] = ''low''"
  by (simp add: assess_text_quality_def strip_def)

lemma pdfplumber_log: "snd (extract_text_pdfplumber self f log) = log @ [Native]"
  by (simp add: extract_text_pdfplumber_def Let_def split: option.splits)

lemma ocr_log: "snd (extract_text_ocr self f log) = log @ [OCR]"
  by (simp add: extract_text_ocr_def Let_def split: option.splits)

lemma pdfplumber_success:
  assumes "extract_text_pdfplumber self f log = ((t, ok), log1)"
  shows "ok \<longleftrightarrow> native_pages f \<noteq> None \<and> min_text_threshold self \<le> int (length (strip t))"
    and "native_pages f = None \<longrightarrow> t = []"
  using assms by (auto simp: extract_text_pdfplumber_def Let_def split: option.splits)

lemma ocr_success:
  assumes "extract_text_ocr self f log = ((t, ok), log1)"
  shows "ok \<longleftrightarrow> ocr_pages f \<noteq> None \<and> min_text_threshold self \<le> int (length (strip t))"
  using assms by (auto simp: extract_text_ocr_def Let_def split: option.splits)

text \<open>
  C4. Let \<open>t\<close> be the native text of a file and \<open>o_text\<close> what OCR yields for it.
  (i) When the trimmed \<open>t\<close> reaches the threshold and its confidence is not \<open>low\<close>,
  \<open>process_pdf\<close> returns \<open>t\<close> with method \<open>text\<close> and calls the native extractor only.
  (ii) When the trimmed \<open>t\<close> is below the threshold or its confidence is \<open>low\<close>, OCR is
  called; if OCR returns and its trimmed text reaches the threshold, the OCR text is
  returned with method \<open>ocr\<close> and the confidence assessed on the OCR text; (iii) if OCR
  raises or falls short and \<open>t\<close> is not empty, \<open>t\<close> is returned with method
  \<open>text_fallback\<close> and the confidence assessed on \<open>t\<close>.
\<close>

theorem process_pdf_cascade:
  assumes nat: "extract_text_pdfplumber self f [] = ((t, ok), log1)"
      and ocr: "extract_text_ocr self f log1 = ((o_text, o_ok), log2)"
  shows "(min_text_threshold self \<le> int (length (strip t)) \<and> assess_text_quality t \<noteq> ''low'' \<longrightarrow>
            process_pdf self f [] = ((t, ''text'', assess_text_quality t), [Native])) \<and>
         (int (length (strip t)) < min_text_threshold self \<or> assess_text_quality t = ''low'' \<longrightarrow>
            snd (process_pdf self f []) = [Native, OCR] \<and>
            (ocr_pages f \<noteq> None \<and> min_text_threshold self \<le> int (length (strip o_text)) \<longrightarrow>
               fst (process_pdf self f []) = (o_text, ''ocr'', assess_text_quality o_text)) \<and>
            ((ocr_pages f = None \<or> int (length (strip o_text)) < min_text_threshold self) \<and> t \<noteq> [] \<longrightarrow>
               fst (process_pdf self f []) = (t, ''text_fallback'', assess_text_quality t)))"
proof -
  let ?q = "assess_text_quality t"
  have l1: "log1 = [Native]" using pdfplumber_log[of self f "[]"] nat by simp
  have l2: "log2 = [Native, OCR]" using ocr_log[of self f log1] ocr l1 by simp
  have okd: "ok \<longleftrightarrow> native_pages f \<noteq> None \<and> min_text_threshold self \<le> int (length (strip t))"
    using pdfplumber_success(1)[OF nat] .
  have tn: "native_pages f = None \<longrightarrow> t = []" using pdfplumber_success(2)[OF nat] .
  have ookd: "o_ok \<longleftrightarrow> ocr_pages f \<noteq> None \<and> min_text_threshold self \<le> int (length (strip o_text))"
    using ocr_success[OF ocr] .
  have low: "native_pages f = None \<longrightarrow> ?q = ''low''"
    using tn assess_empty by auto
  have pp: "process_pdf self f [] =
      (if \<not> ok \<or> ?q = ''low''
       then (if o_ok then ((o_text, ''ocr'', assess_text_quality o_text), log2)
             else if t \<noteq> [] then ((t, ''text_fallback'', ?q), log2)
             else ((t, ''text'', ?q), log2))
       else ((t, ''text'', ?q), log1))"
    by (simp add: nat ocr Let_def)
  have a: "min_text_threshold self \<le> int (length (strip t)) \<and> ?q \<noteq> ''low'' \<longrightarrow>
            process_pdf self f [] = ((t, ''text'', ?q), [Native])"
    using pp l1 okd low by auto
  have fb: "int (length (strip t)) < min_text_threshold self \<or> ?q = ''low'' \<Longrightarrow> \<not> ok \<or> ?q = ''low''"
    using okd by auto
  have b: "int (length (strip t)) < min_text_threshold self \<or> ?q = ''low'' \<longrightarrow>
            snd (process_pdf self f []) = [Native, OCR] \<and>
            (ocr_pages f \<noteq> None \<and> min_text_threshold self \<le> int (length (strip o_text)) \<longrightarrow>
               fst (process_pdf self f []) = (o_text, ''ocr'', assess_text_quality o_text)) \<and>
            ((ocr_pages f = None \<or> int (length (strip o_text)) < min_text_threshold self) \<and> t \<noteq> [] \<longrightarrow>
               fst (process_pdf self f []) = (t, ''text_fallback'', ?q))"
  proof
    assume "int (length (strip t)) < min_text_threshold self \<or> ?q = ''low''"
    then have c: "\<not> ok \<or> ?q = ''low''" by (rule fb)
    have pp': "process_pdf self f [] =
       (if o_ok then ((o_text, ''ocr'', assess_text_quality o_text), log2)
             else if t \<noteq> [] then ((t, ''text_fallback'', ?q), log2)
             else ((t, ''text'', ?q), log2))"
      using pp c by presburger
    show "snd (process_pdf self f []) = [Native, OCR] \<and>
            (ocr_pages f \<noteq> None \<and> min_text_threshold self \<le> int (length (strip o_text)) \<longrightarrow>
               fst (process_pdf self f []) = (o_text, ''ocr'', assess_text_quality o_text)) \<and>
            ((ocr_pages f = None \<or> int (length (strip o_text)) < min_text_threshold self) \<and> t \<noteq> [] \<longrightarrow>
               fst (process_pdf self f []) = (t, ''text_fallback'', ?q))"
      unfolding pp' l2 using ookd by auto
  qed
  show ?thesis using a b by blast
qed

text \<open>The three branches at a threshold of 50 characters: a file with a good text layer and
  a failing OCR engine; a file with a short text layer and a readable scan; a file with
  a short text layer whose OCR raises.\<close>

theorem process_pdf_cascade_witness:
  "process_pdf \<lparr>min_text_threshold = 50\<rparr> \<lparr>native_pages = Some [Some ''SHIPPER: Acme\<newline>1 Main St\<newline>Oslo\<newline>Norway\<newline>VESSEL: MV T\<newline>VOYAGE: 1\<newline>END''], ocr_pages = None\<rparr> [] =
     ((''SHIPPER: Acme\<newline>1 Main St\<newline>Oslo\<newline>Norway\<newline>VESSEL: MV T\<newline>VOYAGE: 1\<newline>END\<newline>'', ''text'', ''high''), [Native]) \<and>
   process_pdf \<lparr>min_text_threshold = 50\<rparr> \<lparr>native_pages = Some [Some ''Short''], ocr_pages = Some [''Text recognised on the scan of a page, sixty characters long'']\<rparr> [] =
     ((''Text recognised on the scan of a page, sixty characters long\<newline>'', ''ocr'', ''low''), [Native, OCR]) \<and>
   process_pdf \<lparr>min_text_threshold = 50\<rparr> \<lparr>native_pages = Some [Some ''Short''], ocr_pages = None\<rparr> [] =
     ((''Short\<newline>'', ''text_fallback'', ''low''), [Native, OCR])"
proof -
  define P where "P = \<lparr>min_text_threshold = 50\<rparr>"
  define h where "h = ''SHIPPER: Acme\<newline>1 Main St\<newline>Oslo\<newline>Norway\<newline>VESSEL: MV T\<newline>VOYAGE: 1\<newline>END''"
  define s where "s = ''Short''"
  define l where "l = ''Text recognised on the scan of a page, sixty characters long''"
  define f1 where "f1 = \<lparr>native_pages = Some [Some h], ocr_pages = None\<rparr>"
  define f2 where "f2 = \<lparr>native_pages = Some [Some s], ocr_pages = Some [l]\<rparr>"
  define f3 where "f3 = \<lparr>native_pages = Some [Some s], ocr_pages = None\<rparr>"
  define t1 where "t1 = h @ [nl]"
  define t2 where "t2 = s @ [nl]"
  define o2 where "o2 = l @ [nl]"
  have n1: "extract_text_pdfplumber P f1 [] = ((t1, True), [Native])"
    unfolding P_def f1_def t1_def h_def by code_simp
  have o1: "extract_text_ocr P f1 [Native] = (([], False), [Native, OCR])"
    unfolding P_def f1_def by code_simp
  have a1: "min_text_threshold P \<le> int (length (strip t1))"
    unfolding P_def t1_def h_def by code_simp
  have q1: "assess_text_quality t1 = ''high''"
    unfolding t1_def h_def by code_simp
  have ne: "''high'' \<noteq> ''low''" by simp
  have r1: "process_pdf P f1 [] = ((t1, ''text'', ''high''), [Native])"
    using process_pdf_cascade[OF n1 o1] a1 q1 ne by metis
  have n2: "extract_text_pdfplumber P f2 [] = ((t2, False), [Native])"
    unfolding P_def f2_def t2_def s_def by code_simp
  have o2: "extract_text_ocr P f2 [Native] = ((o2, True), [Native, OCR])"
    unfolding P_def f2_def o2_def l_def by code_simp
  have a2: "int (length (strip t2)) < min_text_threshold P"
    unfolding P_def t2_def s_def by code_simp
  have b2: "min_text_threshold P \<le> int (length (strip o2))"
    unfolding P_def o2_def l_def by code_simp
  have p2: "ocr_pages f2 \<noteq> None" unfolding f2_def by simp
  have q2: "assess_text_quality o2 = ''low''"
    unfolding o2_def l_def by code_simp
  have r2: "process_pdf P f2 [] = ((o2, ''ocr'', ''low''), [Native, OCR])"
    using process_pdf_cascade[OF n2 o2] a2 b2 p2 q2 by (metis prod.collapse)
  have n3: "extract_text_pdfplumber P f3 [] = ((t2, False), [Native])"
    unfolding P_def f3_def t2_def s_def by code_simp
  have o3: "extract_text_ocr P f3 [Native] = (([], False), [Native, OCR])"
    unfolding P_def f3_def by code_simp
  have p3: "ocr_pages f3 = None" unfolding f3_def by simp
  have e3: "t2 \<noteq> []" unfolding t2_def by simp
  have q3: "assess_text_quality t2 = ''low''"
    unfolding t2_def s_def by code_simp
  have r3: "process_pdf P f3 [] = ((t2, ''text_fallback'', ''low''), [Native, OCR])"
    using process_pdf_cascade[OF n3 o3] a2 p3 e3 q3 by (metis prod.collapse)
  have c1: "t1 = ''SHIPPER: Acme\<newline>1 Main St\<newline>Oslo\<newline>Norway\<newline>VESSEL: MV T\<newline>VOYAGE: 1\<newline>END\<newline>''"
    unfolding t1_def h_def nl_def by simp
  have c2: "o2 = ''Text recognised on the scan of a page, sixty characters long\<newline>''"
    unfolding o2_def l_def nl_def by simp
  have c3: "t2 = ''Short\<newline>''"
    unfolding t2_def s_def nl_def by simp
  show ?thesis
    using r1 r2 r3 unfolding c1 c2 c3 unfolding P_def f1_def f2_def f3_def h_def s_def l_def
    by (intro conjI)
qed

text \<open>
  C2. A file whose native text is empty and whose OCR text, trimmed, stays below the
  threshold: the claim expects the method \<open>ocr\<close> with confidence \<open>low\<close>. At the file
  without pages \<open>process_pdf\<close> returns the method \<open>text\<close>: no branch of the fallback
  assigns \<open>extraction_method\<close> when OCR fails and the native text is empty.
\<close>

theorem process_pdf_both_fail:
  "process_pdf PDFProcessor_new \<lparr>native_pages = Some [], ocr_pages = Some []\<rparr> [] =
     (([], ''text'', ''low''), [Native, OCR])"
  by code_simp


section \<open>Pattern order in \<open>extract_field\<close>\<close>

lemma field_loop_skip:
  "list_all (\<lambda>p. no_result p text) ps \<Longrightarrow> field_loop (ps @ qs) text = field_loop qs text"
  by (induction ps) (auto simp: no_result_def Let_def split: option.splits)

lemma field_loop_empty: "list_all (\<lambda>p. no_result p text) ps \<Longrightarrow> field_loop ps text = []"
  using field_loop_skip[of "text" ps "[]"] by simp

lemma field_loop_hit:
  assumes "re_search IMS p text = Some g" and "strip g \<noteq> []"
  shows "field_loop (p # qs) text = clean_field_data (strip g)"
  using assms by (simp add: Let_def)

text \<open>
  C9. For every field type and text: when a pattern of the field type's list matches
  with a group that is not empty once trimmed, and every pattern before it in the list
  yields nothing usable (no match, or an empty group), \<open>extract_field\<close> returns the
  cleaned group of that pattern, whatever the later patterns match; when no pattern of
  the list yields anything usable it returns the empty string.
\<close>

theorem extract_field_first_match:
  "(\<forall>i g. i < length (get_patterns field_type) \<and>
           re_search IMS (get_patterns field_type ! i) text = Some g \<and> strip g \<noteq> [] \<and>
           list_all (\<lambda>p. no_result p text) (take i (get_patterns field_type))
           \<longrightarrow> extract_field text field_type = clean_field_data (strip g)) \<and>
   (list_all (\<lambda>p. no_result p text) (get_patterns field_type)
      \<longrightarrow> extract_field text field_type = [])"
proof (intro conjI allI impI)
  fix i g
  let ?ps = "get_patterns field_type"
  assume h: "i < length ?ps \<and> re_search IMS (?ps ! i) text = Some g \<and> strip g \<noteq> [] \<and>
           list_all (\<lambda>p. no_result p text) (take i ?ps)"
  then have split: "?ps = take i ?ps @ (?ps ! i) # drop (Suc i) ?ps"
    using id_take_nth_drop by blast
  have "field_loop ?ps text = field_loop ((?ps ! i) # drop (Suc i) ?ps) text"
    using field_loop_skip[of "text" "take i ?ps" "(?ps ! i) # drop (Suc i) ?ps"] h split by simp
  also have "\<dots> = clean_field_data (strip g)"
    using field_loop_hit h by blast
  finally show "extract_field text field_type = clean_field_data (strip g)"
    by (simp add: extract_field_def)
next
  assume "list_all (\<lambda>p. no_result p text) (get_patterns field_type)"
  then show "extract_field text field_type = []"
    by (simp add: extract_field_def field_loop_empty)
qed

text \<open>A voyage text where the third pattern matches earlier in the text but the first
  pattern wins; a shipper text where the first two patterns capture an empty block and
  the third is used; a text without any vessel label.\<close>

theorem extract_field_first_match_witness:
  "extract_field ''VOY: A1\<newline>VOYAGE: B2'' ''voyage'' = ''B2'' \<and>
   extract_field ''SHIPPER:\<newline>CONSIGNEE: X\<newline>FROM: Acme\<newline>TO: Y'' ''shipper'' = ''Acme'' \<and>
   extract_field ''no label here'' ''vessel'' = []"
proof -
  define t1 where "t1 = ''VOY: A1\<newline>VOYAGE: B2''"
  define t2 where "t2 = ''SHIPPER:\<newline>CONSIGNEE: X\<newline>FROM: Acme\<newline>TO: Y''"
  define t3 where "t3 = ''no label here''"
  have v: "get_patterns ''voyage'' = voyage_list" by code_simp
  have a0: "re_search IMS (voyage_list ! 0) t1 = Some ''B2''" unfolding t1_def by code_simp
  have a2: "re_search IMS (voyage_list ! 2) t1 = Some ''A1''" unfolding t1_def by code_simp
  have a3: "strip ''B2'' \<noteq> []" by code_simp
  have a4: "clean_field_data (strip ''B2'') = ''B2''" by code_simp
  have a5: "(0::nat) < length voyage_list" by code_simp
  have r1: "extract_field t1 ''voyage'' = ''B2''"
    using extract_field_first_match[of "''voyage''" t1] a0 a3 a4 a5 unfolding v
    by (metis list.pred_inject(1) take_0)
  have s: "get_patterns ''shipper'' = shipper_list" by code_simp
  have b0: "no_result (shipper_list ! 0) t2" unfolding t2_def by code_simp
  have b1: "no_result (shipper_list ! 1) t2" unfolding t2_def by code_simp
  have b2: "re_search IMS (shipper_list ! 2) t2 = Some ''Acme''" unfolding t2_def by code_simp
  have b3: "strip ''Acme'' \<noteq> []" by code_simp
  have b4: "clean_field_data (strip ''Acme'') = ''Acme''" by code_simp
  have b5: "(2::nat) < length shipper_list" by code_simp
  have b6: "take 2 shipper_list = [shipper_list ! 0, shipper_list ! 1]" by code_simp
  have b7: "list_all (\<lambda>p. no_result p t2) (take 2 shipper_list)" unfolding b6 using b0 b1 by simp
  have r2: "extract_field t2 ''shipper'' = ''Acme''"
    using extract_field_first_match[of "''shipper''" t2] b2 b3 b4 b5 b7 unfolding s
    by metis
  have w: "get_patterns ''vessel'' = vessel_list" by code_simp
  have c0: "list_all (\<lambda>p. no_result p t3) vessel_list" unfolding t3_def by code_simp
  have r3: "extract_field t3 ''vessel'' = []"
    using extract_field_first_match[of "''vessel''" t3] c0 unfolding w by metis
  show ?thesis using r1 r2 r3 unfolding t1_def t2_def t3_def by (intro conjI)
qed


section \<open>Exceptions in \<open>extract_all_fields\<close>\<close>

lemma exec_stops:
  "exec sts1 b0 = (b, None) \<Longrightarrow> st b = Inl e \<Longrightarrow> exec (sts1 @ st # sts2) b0 = (b, Some e)"
proof (induction sts1 arbitrary: b0)
  case Nil
  then show ?case by simp
next
  case (Cons s sts1)
  show ?case
  proof (cases "s b0")
    case (Inl e')
    then show ?thesis using Cons.prems by simp
  next
    case (Inr b1)
    then show ?thesis using Cons by simp
  qed
qed

text \<open>
  C7. When the statements of the \<open>try\<close> block before \<open>st\<close> run without an exception,
  leaving the record \<open>b\<close>, and \<open>st\<close> raises \<open>e\<close>, then \<open>extract_all_fields\<close> returns
  (it does not raise) the record \<open>b\<close> with the failure flag set and
  \<open>processing_notes\<close> set to a text that is not empty and contains the description of
  \<open>e\<close>; every other field is as the earlier statements left it.
\<close>

theorem extraction_error_contained:
  assumes "try_body self text tables = sts1 @ st # sts2"
      and "exec sts1 (BOLData_new\<lparr>filename := fname\<rparr>) = (b, None)"
      and "st b = Inl e"
  shows "extract_all_fields_of self text tables fname =
           b\<lparr>extraction_failed := True, processing_notes := ''Extraction error: '' @ str_of e\<rparr> \<and>
         extraction_failed (extract_all_fields_of self text tables fname) \<and>
         processing_notes (extract_all_fields_of self text tables fname) \<noteq> [] \<and>
         occurs_in (str_of e) (processing_notes (extract_all_fields_of self text tables fname))"
proof -
  have "exec (sts1 @ st # sts2) (BOLData_new\<lparr>filename := fname\<rparr>) = (b, Some e)"
    using assms(2) assms(3) by (rule exec_stops)
  then have "exec (try_body self text tables) (BOLData_new\<lparr>filename := fname\<rparr>) = (b, Some e)"
    using assms(1) by simp
  then have r: "extract_all_fields_of self text tables fname =
           b\<lparr>extraction_failed := True, processing_notes := ''Extraction error: '' @ str_of e\<rparr>"
    by (simp add: extract_all_fields_of_def)
  have "occurs_in (str_of e) (''Extraction error: '' @ str_of e)"
    unfolding occurs_in_def by (metis append_Nil2)
  then show ?thesis using r by simp
qed

text \<open>An extractor whose \<open>extract_vessel_info\<close> raises: the number extracted before
  the exception stays in the record.\<close>

theorem extraction_error_contained_witness:
  "extract_all_fields_of
     (BOLDataExtractor\<lparr>m_extract_vessel_info := \<lambda>text. Inl (Exception ''vessel lookup failed'')\<rparr>)
     ''B/L NO: X1'' [] ''a.pdf'' =
   BOLData_new\<lparr>filename := ''a.pdf'', bol_number := ''X1'', extraction_failed := True,
     processing_notes := ''Extraction error: vessel lookup failed''\<rparr>"
proof -
  define self where
    "self = BOLDataExtractor\<lparr>m_extract_vessel_info := \<lambda>text. Inl (Exception ''vessel lookup failed'')\<rparr>"
  define t where "t = ''B/L NO: X1''"
  define body where "body = try_body self t []"
  define b where "b = BOLData_new\<lparr>filename := ''a.pdf'', bol_number := ''X1''\<rparr>"
  have len: "2 < length body" unfolding body_def try_body_def by simp
  have sp: "try_body self t [] = take 2 body @ (body ! 2) # drop (Suc 2) body"
    using id_take_nth_drop[OF len] unfolding body_def .
  have n: "extract_bol_number t = ''X1''" unfolding t_def by code_simp
  have p: "extract_parties t = ([], [], [], [], [], [])" unfolding t_def by code_simp
  have tk: "take 2 body = [body ! 0, body ! 1]"
    unfolding body_def try_body_def by (simp add: numeral_2_eq_2)
  have sts1: "exec (take 2 body) (BOLData_new\<lparr>filename := ''a.pdf''\<rparr>) = (b, None)"
    unfolding tk unfolding body_def try_body_def b_def self_def BOLDataExtractor_def
    by (simp add: assign_def n p BOLData_new_def)
  have st: "(body ! 2) b = Inl (Exception ''vessel lookup failed'')"
    unfolding body_def try_body_def self_def by (simp add: assign_def)
  have "extract_all_fields_of self t [] ''a.pdf'' =
          b\<lparr>extraction_failed := True,
            processing_notes := ''Extraction error: '' @ str_of (Exception ''vessel lookup failed'')\<rparr>"
    using extraction_error_contained[OF sp sts1 st] by blast
  then show ?thesis unfolding self_def t_def b_def by simp
qed


section \<open>Party blocks\<close>

text \<open>
  C1. The claim expects the block captured by a party pattern to be split at its first
  newline into name and address. At a text whose shipper pattern captures the two-line
  block \<open>Acme Corp / 123 Main St\<close>, \<open>extract_parties\<close> returns the name
  \<open>Acme Corp 123 Main St\<close> and an empty address: \<open>extract_field\<close> has already passed
  the block through \<open>clean_field_data\<close>, which turns the newline into a space, before
  \<open>split_name_address\<close> looks for it.
\<close>

theorem extract_parties_joins_lines:
  "re_search IMS (shipper_list ! 0)
     ''SHIPPER: Acme Corp\<newline>123 Main St\<newline>CONSIGNEE: Bolt Ltd\<newline>VESSEL: MV T'' =
     Some ''Acme Corp\<newline>123 Main St'' \<and>
   extract_parties ''SHIPPER: Acme Corp\<newline>123 Main St\<newline>CONSIGNEE: Bolt Ltd\<newline>VESSEL: MV T'' =
     (''Acme Corp 123 Main St'', [], ''Bolt Ltd'', [], [], [])"
  unfolding extract_parties_def extract_field_def gp_shipper gp_consignee gp_notify_party
  by code_simp

section \<open>The end-to-end scenario\<close>

lemma scenario_bol_number: "extract_bol_number scenario_text = ''BOL123456789''"
  unfolding extract_bol_number_def extract_field_def gp_bol_number by code_simp

lemma scenario_shipper:
  "extract_field scenario_text ''shipper'' = ''ABC Shipping Company 123 Export Lane''"
  unfolding extract_field_def gp_shipper by code_simp

lemma scenario_consignee:
  "extract_field scenario_text ''consignee'' = ''XYZ Import Corp 456 Harbor Blvd''"
  unfolding extract_field_def gp_consignee by code_simp

lemma scenario_notify_party: "extract_field scenario_text ''notify_party'' = []"
  unfolding extract_field_def gp_notify_party by code_simp

lemma scenario_parties:
  "extract_parties scenario_text = (''ABC Shipping Company 123 Export Lane'', [],
      ''XYZ Import Corp 456 Harbor Blvd'', [], [], [])"
proof -
  have s2: "split_name_address ''ABC Shipping Company 123 Export Lane'' =
      (''ABC Shipping Company 123 Export Lane'', [])" by code_simp
  have s3: "split_name_address ''XYZ Import Corp 456 Harbor Blvd'' =
      (''XYZ Import Corp 456 Harbor Blvd'', [])" by code_simp
  have s4: "split_name_address [] = ([], [])" by code_simp
  show ?thesis
    by (simp add: extract_parties_def scenario_shipper scenario_consignee
        scenario_notify_party s2 s3 s4)
qed

lemma scenario_vessel: "extract_field scenario_text ''vessel'' = ''MV Ocean Carrier''"
  unfolding extract_field_def gp_vessel by code_simp

lemma scenario_voyage: "extract_field scenario_text ''voyage'' = ''VOY2024001''"
  unfolding extract_field_def gp_voyage by code_simp

lemma scenario_port_of_load: "extract_field scenario_text ''port_of_load'' = ''Los Angeles, CA''"
  unfolding extract_field_def gp_port_of_load by code_simp

lemma scenario_port_of_discharge:
  "extract_field scenario_text ''port_of_discharge'' = ''New York, NY''"
  unfolding extract_field_def gp_port_of_discharge by code_simp

lemma scenario_dates: "extract_dates scenario_text = ''15/03/2024''"
  unfolding extract_dates_def gp_date_patterns by code_simp

lemma scenario_weights:
  "weights_loop weight_patterns_list scenario_text ([], []) = (''2,500 KG'', ''2,200 KG'')"
  by code_simp

lemma scenario_quantity: "quantity_loop quantity_patterns_list scenario_text = ''100''"
  by code_simp

lemma scenario_freight_terms: "extract_freight_terms scenario_text = ''PREPAID''"
  unfolding extract_freight_terms_def extract_field_def gp_freight_terms by code_simp

lemma scenario_goods: "goods_loop goods_patterns scenario_text [] = []"
  by code_simp

text \<open>
  C3. The claim expects, for the scenario text without tables, the shipper name
  \<open>ABC Shipping Company\<close> with an address containing \<open>123 Export Lane\<close>, the consignee
  name \<open>XYZ Import Corp\<close> and the quantity \<open>100 CTNS\<close>. \<open>extract_all_fields\<close> returns
  the record below: both address lines are joined into the names (the addresses are
  empty), and the quantity is \<open>100\<close>, since the quantity patterns capture digits,
  separators and spaces only. The other fields are as the claim lists them.
\<close>

theorem extract_all_fields_scenario:
  "extract_all_fields scenario_text [] ''test.pdf'' =
   \<lparr>filename = ''test.pdf'', bol_number = ''BOL123456789'',
    shipper_name = ''ABC Shipping Company 123 Export Lane'', shipper_address = [],
    consignee_name = ''XYZ Import Corp 456 Harbor Blvd'', consignee_address = [],
    notify_party_name = [], notify_party_address = [],
    vessel_name = ''MV Ocean Carrier'', voyage_number = ''VOY2024001'',
    port_of_load = ''Los Angeles, CA'', port_of_discharge = ''New York, NY'',
    description_of_goods = [], quantity_packages = ''100'',
    gross_weight = ''2,500 KG'', net_weight = ''2,200 KG'',
    freight_terms = ''PREPAID'', date_of_issue = ''15/03/2024'',
    extraction_method = [], extraction_confidence = ''medium'',
    processing_notes = [], extraction_failed = False\<rparr>"
proof -
  have w: "extract_weights_quantities scenario_text = (''2,500 KG'', ''2,200 KG'', ''100'')"
    by (simp add: extract_weights_quantities_def gp_weight_patterns gp_quantity_patterns
        scenario_weights scenario_quantity)
  show ?thesis
    unfolding extract_all_fields_def extract_all_fields_of_def try_body_def BOLDataExtractor_def
    by (simp add: assign_def BOLData_new_def scenario_bol_number scenario_parties
        extract_vessel_info_def scenario_vessel scenario_voyage extract_ports_def
        scenario_port_of_load scenario_port_of_discharge scenario_dates w
        scenario_freight_terms scenario_goods)
qed


section \<open>The field cleaner\<close>

lemma at_bol_later: "at_bol no_flags (Some d) = False"
  by (simp add: at_bol_def no_flags_def)

lemma at_bol_start: "at_bol fl None = True"
  by (simp add: at_bol_def)

lemma lastp_Cons: "lastp prev (c # xs) = lastp (Some c) xs"
  by (simp add: lastp_def)

lemma rep_greedy_accept:
  "rep_greedy P lo None prev s (\<lambda>p s. Some (p, s)) =
     (if lo \<le> length (takeWhile P s) then Some (lastp prev (takeWhile P s), dropWhile P s) else None)"
proof (induction s arbitrary: lo prev)
  case Nil
  then show ?case by (simp add: lastp_def)
next
  case (Cons c s)
  show ?case
  proof (cases "P c")
    case True
    have "lo \<le> Suc (length (takeWhile P s)) \<longleftrightarrow> lo - 1 \<le> length (takeWhile P s)" by auto
    then show ?thesis using True Cons.IH[of "lo - 1" "Some c"]
      by (auto simp: dec_def lastp_Cons)
  next
    case False
    then show ?thesis by (simp add: lastp_def)
  qed
qed

lemma amatch_WS: "amatch fl WS = isspace"
  by (rule ext) simp

lemma amatch_artifact: "amatch no_flags artifact = is_artifact"
  by (rule ext) (auto simp: artifact_def no_flags_def is_artifact_def)

lemma rmatch_plus1_accept:
  "rmatch fl (plus1 a) prev s (\<lambda>p s. Some (p, s)) =
     (if s \<noteq> [] \<and> amatch fl a (hd s)
      then Some (lastp prev (takeWhile (amatch fl a) s), dropWhile (amatch fl a) s) else None)"
proof -
  have "rmatch fl (plus1 a) prev s (\<lambda>p s. Some (p, s)) =
        rep_greedy (amatch fl a) 1 None prev s (\<lambda>p s. Some (p, s))"
    by (simp add: plus1_def)
  also have "\<dots> = (if 1 \<le> length (takeWhile (amatch fl a) s)
      then Some (lastp prev (takeWhile (amatch fl a) s), dropWhile (amatch fl a) s) else None)"
    by (rule rep_greedy_accept)
  also have "1 \<le> length (takeWhile (amatch fl a) s) \<longleftrightarrow> s \<noteq> [] \<and> amatch fl a (hd s)"
    by (cases s) auto
  finally show ?thesis .
qed

lemma sub_ws: "sub_from no_flags (plus1 WS) '' '' prev s = collapse_ws s"
proof (induction s arbitrary: prev rule: collapse_ws.induct)
  case 1
  show ?case
    by (subst sub_from.simps) (simp add: rmatch_plus1_accept)
next
  case (2 c s)
  show ?case
  proof (cases "isspace c")
    case True
    have l: "length (dropWhile isspace s) < length (c # s)"
      by (simp add: length_dropWhile_le less_Suc_eq_le)
    show ?thesis
      by (subst sub_from.simps) (use True l 2(1) in \<open>simp add: rmatch_plus1_accept amatch_WS\<close>)
  next
    case False
    show ?thesis
      by (subst sub_from.simps) (use False 2(2) in \<open>simp add: rmatch_plus1_accept amatch_WS\<close>)
  qed
qed

lemma sub_bol_later: "sub_from no_flags (Seq Bol r) repl (Some d) s = s"
proof (induction s arbitrary: d)
  case Nil
  show ?case by (subst sub_from.simps) (simp add: at_bol_later)
next
  case (Cons c s)
  show ?case by (subst sub_from.simps) (simp add: at_bol_later Cons)
qed

lemma sub_bol_artifact:
  "sub_from no_flags (Seq Bol (plus1 artifact)) [] None s = dropWhile is_artifact s"
proof (cases s)
  case Nil
  show ?thesis unfolding Nil
    by (subst sub_from.simps) (simp add: at_bol_start rmatch_plus1_accept)
next
  case (Cons c t)
  show ?thesis
  proof (cases "is_artifact c")
    case True
    have l: "length (dropWhile is_artifact t) < length (c # t)"
      by (simp add: length_dropWhile_le less_Suc_eq_le)
    have lp: "lastp None (c # takeWhile is_artifact t) = Some (last (c # takeWhile is_artifact t))"
      by (simp add: lastp_def)
    have m: "rmatch no_flags (Seq Bol (plus1 artifact)) None (c # t) (\<lambda>p s. Some (p, s)) =
          Some (Some (last (c # takeWhile is_artifact t)), dropWhile is_artifact t)"
      using True lp by (simp add: at_bol_start rmatch_plus1_accept amatch_artifact)
    show ?thesis unfolding Cons
      by (subst sub_from.simps) (use True l in \<open>simp add: m sub_bol_later del: rmatch.simps\<close>)
  next
    case False
    have m: "rmatch no_flags (Seq Bol (plus1 artifact)) None (c # t) (\<lambda>p s. Some (p, s)) = None"
      using False by (simp add: at_bol_start rmatch_plus1_accept amatch_artifact)
    show ?thesis unfolding Cons
      by (subst sub_from.simps) (use False in \<open>simp add: m sub_bol_later del: rmatch.simps\<close>)
  qed
qed

lemma at_eol_no_flags: "at_eol no_flags s = (s = [] \<or> s = [nl])"
  by (simp add: at_eol_def no_flags_def)

lemma rep_greedy_eol:
  assumes "P nl"
  shows "rep_greedy P lo None prev s (\<lambda>p' s'. if s' = [] \<or> s' = [nl] then Some (p', s') else None) =
           (if list_all P s \<and> lo \<le> length s then Some (lastp prev s, []) else None)"
proof (induction s arbitrary: lo prev)
  case Nil
  then show ?case by (simp add: lastp_def)
next
  case (Cons c s)
  show ?case
  proof (cases "P c")
    case True
    have le: "lo \<le> Suc (length s) \<longleftrightarrow> lo - 1 \<le> length s" by auto
    show ?thesis
    proof (cases "list_all P s \<and> lo - 1 \<le> length s")
      case yes: True
      then show ?thesis using True Cons.IH[of "lo - 1" "Some c"] le
        by (simp add: dec_def lastp_Cons)
    next
      case no: False
      have "lo = 0 \<Longrightarrow> s \<noteq> []" using no by auto
      then show ?thesis using True no Cons.IH[of "lo - 1" "Some c"] le
        by (auto simp: dec_def)
    qed
  next
    case False
    then have "c \<noteq> nl" using assms by auto
    then show ?thesis using False by simp
  qed
qed

lemma is_artifact_nl: "is_artifact nl"
  by (simp add: is_artifact_def nl_def isspace_def code_def)

lemma rmatch_plus1_eol:
  "rmatch no_flags (Seq (plus1 artifact) Eol) prev s (\<lambda>p s. Some (p, s)) =
     (if s \<noteq> [] \<and> list_all is_artifact s then Some (lastp prev s, []) else None)"
proof -
  have "rmatch no_flags (Seq (plus1 artifact) Eol) prev s (\<lambda>p s. Some (p, s)) =
        rep_greedy is_artifact 1 None prev s
          (\<lambda>p' s'. if s' = [] \<or> s' = [nl] then Some (p', s') else None)"
    by (simp add: plus1_def amatch_artifact at_eol_no_flags)
  also have "\<dots> = (if list_all is_artifact s \<and> 1 \<le> length s then Some (lastp prev s, []) else None)"
    using is_artifact_nl by (rule rep_greedy_eol)
  also have "list_all is_artifact s \<and> 1 \<le> length s \<longleftrightarrow> s \<noteq> [] \<and> list_all is_artifact s"
    by (cases s) auto
  finally show ?thesis .
qed

lemma rstrip_all: "list_all is_artifact s \<Longrightarrow> rstrip_artifact s = []"
  by (simp add: rstrip_artifact_def list_all_iff)

lemma rstrip_Cons:
  assumes "\<not> list_all is_artifact (c # s)"
  shows "rstrip_artifact (c # s) = c # rstrip_artifact s"
proof (cases "list_all is_artifact s")
  case True
  then have nc: "\<not> is_artifact c" using assms by simp
  have all: "\<And>x. x \<in> set (rev s) \<Longrightarrow> is_artifact x" using True by (simp add: list_all_iff)
  have d0: "dropWhile is_artifact (rev s) = []" using all by simp
  have "dropWhile is_artifact (rev s @ [c]) = dropWhile is_artifact [c]"
    using all by (rule dropWhile_append2)
  then have d1: "dropWhile is_artifact (rev s @ [c]) = [c]" using nc by simp
  show ?thesis unfolding rstrip_artifact_def using d0 d1 by simp
next
  case False
  then obtain x where "x \<in> set (rev s)" "\<not> is_artifact x" by (auto simp: list_all_iff)
  then have "dropWhile is_artifact (rev s @ [c]) = dropWhile is_artifact (rev s) @ [c]"
    by (simp add: dropWhile_append1)
  then show ?thesis by (simp add: rstrip_artifact_def)
qed

lemma sub_artifact_eol:
  "sub_from no_flags (Seq (plus1 artifact) Eol) [] prev s = rstrip_artifact s"
proof (induction s arbitrary: prev)
  case Nil
  show ?case
    by (subst sub_from.simps) (simp add: rmatch_plus1_eol rstrip_artifact_def del: rmatch.simps)
next
  case (Cons c s)
  have e: "sub_from no_flags (Seq (plus1 artifact) Eol) [] q [] = []" for q
    by (subst sub_from.simps) (simp add: rmatch_plus1_eol del: rmatch.simps)
  show ?case
  proof (cases "list_all is_artifact (c # s)")
    case True
    have m: "rmatch no_flags (Seq (plus1 artifact) Eol) prev (c # s) (\<lambda>p s. Some (p, s)) =
              Some (lastp prev (c # s), [])"
      using True by (simp add: rmatch_plus1_eol del: rmatch.simps)
    show ?thesis
      by (subst sub_from.simps) (simp add: m e rstrip_all[OF True] del: rmatch.simps)
  next
    case False
    have m: "rmatch no_flags (Seq (plus1 artifact) Eol) prev (c # s) (\<lambda>p s. Some (p, s)) = None"
      using False by (simp add: rmatch_plus1_eol del: rmatch.simps)
    show ?thesis
      by (subst sub_from.simps) (simp add: m Cons rstrip_Cons[OF False] del: rmatch.simps)
  qed
qed

lemma clean_field_data_eq:
  "clean_field_data data = rstrip_artifact (dropWhile is_artifact (collapse_ws (strip data)))"
  unfolding clean_field_data_def re_sub_def Let_def no_flags_def[symmetric]
  by (simp only: sub_ws sub_bol_artifact sub_artifact_eol)

lemma collapse_ws_hd:
  "s \<noteq> [] \<Longrightarrow> \<not> isspace (hd s) \<Longrightarrow> collapse_ws s \<noteq> [] \<and> hd (collapse_ws s) = hd s"
  by (cases s) auto

lemma dropWhile_hd: "dropWhile P s \<noteq> [] \<Longrightarrow> \<not> P (hd (dropWhile P s))"
  using hd_dropWhile by blast

lemma tidy_collapse_ws: "tidy (collapse_ws s)"
proof (induction s rule: collapse_ws.induct)
  case 1
  show ?case by simp
next
  case (2 c s)
  show ?case
  proof (cases "isspace c")
    case True
    let ?r = "dropWhile isspace s"
    have "collapse_ws ?r \<noteq> [] \<Longrightarrow> \<not> isspace (hd (collapse_ws ?r))"
    proof -
      assume ne: "collapse_ws ?r \<noteq> []"
      have r: "?r \<noteq> []"
      proof
        assume "?r = []"
        then have "collapse_ws ?r = []" by (simp only: collapse_ws.simps)
        then show False using ne by contradiction
      qed
      then have "\<not> isspace (hd ?r)" by (rule dropWhile_hd)
      then show ?thesis using collapse_ws_hd[OF r] by simp
    qed
    then show ?thesis using True 2(1) by simp
  next
    case False
    then show ?thesis using 2(2) by simp
  qed
qed

lemma collapse_ws_tidy: "tidy s \<Longrightarrow> collapse_ws s = s"
proof (induction s rule: collapse_ws.induct)
  case 1
  show ?case by simp
next
  case (2 c s)
  show ?case
  proof (cases "isspace c")
    case True
    have c: "c = CHR '' ''" and nx: "s \<noteq> [] \<longrightarrow> \<not> isspace (hd s)" and t: "tidy s"
      using "2.prems" True by auto
    have d: "dropWhile isspace s = s" using nx by (cases s) auto
    show ?thesis using True c d t 2(1) by simp
  next
    case False
    then show ?thesis using 2 by simp
  qed
qed

lemma tidy_append_left: "tidy (xs @ ys) \<Longrightarrow> tidy xs"
proof (induction xs)
  case Nil
  show ?case by simp
next
  case (Cons c xs)
  then show ?case by (cases xs) auto
qed

lemma tidy_append_right: "tidy (xs @ ys) \<Longrightarrow> tidy ys"
  by (induction xs) auto

lemma tidy_dropWhile: "tidy s \<Longrightarrow> tidy (dropWhile P s)"
  using tidy_append_right[of "takeWhile P s" "dropWhile P s"] by simp

lemma rstrip_prefix: "s = rstrip_artifact s @ rev (takeWhile is_artifact (rev s))"
  unfolding rstrip_artifact_def
  by (metis rev_append rev_rev_ident takeWhile_dropWhile_id)

lemma tidy_rstrip: "tidy s \<Longrightarrow> tidy (rstrip_artifact s)"
  using tidy_append_left[of "rstrip_artifact s" "rev (takeWhile is_artifact (rev s))"]
        rstrip_prefix[of s] by simp

lemma rstrip_last: "rstrip_artifact s \<noteq> [] \<Longrightarrow> \<not> is_artifact (last (rstrip_artifact s))"
proof -
  assume ne: "rstrip_artifact s \<noteq> []"
  then have d: "dropWhile is_artifact (rev s) \<noteq> []" by (simp add: rstrip_artifact_def)
  then have "\<not> is_artifact (hd (dropWhile is_artifact (rev s)))" by (rule dropWhile_hd)
  then show ?thesis using d by (simp add: rstrip_artifact_def last_rev)
qed

lemma rstrip_hd: "rstrip_artifact s \<noteq> [] \<Longrightarrow> hd (rstrip_artifact s) = hd s"
  using rstrip_prefix[of s] by (metis hd_append2)

lemma rstrip_id: "s = [] \<or> \<not> is_artifact (last s) \<Longrightarrow> rstrip_artifact s = s"
  by (cases s rule: rev_cases) (auto simp: rstrip_artifact_def)

lemma dropWhile_id: "s = [] \<or> \<not> P (hd s) \<Longrightarrow> dropWhile P s = s"
  by (cases s) auto

lemma strip_id: "s = [] \<or> (\<not> isspace (hd s) \<and> \<not> isspace (last s)) \<Longrightarrow> strip s = s"
proof -
  assume a: "s = [] \<or> (\<not> isspace (hd s) \<and> \<not> isspace (last s))"
  then have d: "dropWhile isspace s = s" by (cases s) auto
  have "dropWhile isspace (rev s) = rev s"
    using a by (cases s rule: rev_cases) auto
  then show ?thesis using d by (simp add: strip_def)
qed

lemma clean_fixed:
  assumes "tidy w" and "w = [] \<or> (\<not> is_artifact (hd w) \<and> \<not> is_artifact (last w))"
  shows "clean_field_data w = w"
proof -
  have sp: "w = [] \<or> (\<not> isspace (hd w) \<and> \<not> isspace (last w))"
    using assms(2) by (auto simp: is_artifact_def)
  have 1: "strip w = w" using sp by (rule strip_id)
  have 2: "collapse_ws w = w" using assms(1) by (rule collapse_ws_tidy)
  have 3: "dropWhile is_artifact w = w" using assms(2) by (intro dropWhile_id) auto
  have 4: "rstrip_artifact w = w" using assms(2) by (intro rstrip_id) auto
  show ?thesis unfolding clean_field_data_eq 1 2 3 4 ..
qed

lemma clean_shape:
  "tidy (clean_field_data s) \<and>
   (clean_field_data s = [] \<or>
    (\<not> is_artifact (hd (clean_field_data s)) \<and> \<not> is_artifact (last (clean_field_data s))))"
proof -
  let ?u = "collapse_ws (strip s)"
  let ?v = "dropWhile is_artifact ?u"
  let ?w = "rstrip_artifact ?v"
  have w: "clean_field_data s = ?w" by (rule clean_field_data_eq)
  have t: "tidy ?w" by (intro tidy_rstrip tidy_dropWhile tidy_collapse_ws)
  have e: "?w = [] \<or> (\<not> is_artifact (hd ?w) \<and> \<not> is_artifact (last ?w))"
  proof (cases "?w = []")
    case True
    then show ?thesis by simp
  next
    case False
    then have l: "\<not> is_artifact (last ?w)" by (rule rstrip_last)
    have h: "hd ?w = hd ?v" using False by (rule rstrip_hd)
    have "?v \<noteq> []"
    proof
      assume "?v = []"
      then have "?w = rstrip_artifact []" by (simp only:)
      then show False using False by (simp add: rstrip_artifact_def)
    qed
    then have "\<not> is_artifact (hd ?v)" by (rule dropWhile_hd)
    then show ?thesis using l h by simp
  qed
  show ?thesis unfolding w using t e by simp
qed

text \<open>
  C8. \<open>clean_field_data\<close> is idempotent: cleaning a cleaned string changes nothing.
  It is a total function (it never raises), and it maps the empty string to the empty
  string.
\<close>

theorem clean_field_data_idempotent:
  "clean_field_data (clean_field_data s) = clean_field_data s \<and> clean_field_data [] = []"
proof
  show "clean_field_data (clean_field_data s) = clean_field_data s"
    using clean_shape[of s] by (intro clean_fixed) auto
  show "clean_field_data [] = []"
    by (simp add: clean_field_data_eq strip_def rstrip_artifact_def)
qed

section \<open>Party addresses\<close>

lemma isspace_nl: "isspace nl"
  by (simp add: nl_def isspace_def code_def)

lemma tidy_no_nl: "tidy s \<Longrightarrow> nl \<notin> set s"
proof (induction s)
  case Nil
  show ?case by simp
next
  case (Cons c s)
  have "c \<noteq> nl"
  proof
    assume "c = nl"
    then have "nl = CHR '' ''" using Cons.prems isspace_nl by simp
    then show False by (simp add: nl_def)
  qed
  then show ?case using Cons by simp
qed

lemma clean_no_nl: "nl \<notin> set (clean_field_data s)"
  using clean_shape[of s] tidy_no_nl by blast

lemma field_loop_no_nl: "nl \<notin> set (field_loop ps tx)"
  by (induction ps) (auto simp: Let_def clean_no_nl split: option.splits)

lemma split_chr_absent: "sep \<notin> set s \<Longrightarrow> split_chr sep s = [s]"
  by (induction s) auto

lemma split_name_address_one_line: "nl \<notin> set s \<Longrightarrow> snd (split_name_address s) = []"
  by (simp add: split_name_address_def split_chr_absent)

text \<open>Whatever the text, the three addresses that \<open>extract_parties\<close> returns are empty.\<close>

lemma extract_parties_addresses_empty:
  assumes "extract_parties tx = (sn, sa, cn, ca, nn, na)"
  shows "sa = [] \<and> ca = [] \<and> na = []"
proof -
  have "snd (split_name_address (extract_field tx ft)) = []" for ft
    unfolding extract_field_def using field_loop_no_nl by (rule split_name_address_one_line)
  then show ?thesis
    using assms by (auto simp: extract_parties_def Let_def split: prod.splits)
      (metis snd_conv)+
qed

section \<open>What a match consumes\<close>

lemma rep_greedy_path:
  "rep_greedy P lo hi prev s k = Some x \<Longrightarrow>
     \<exists>ws s'. s = ws @ s' \<and> list_all P ws \<and> lo \<le> length ws \<and> k (lastp prev ws) s' = Some x"
proof (induction s arbitrary: lo hi prev)
  case Nil
  then have "lo = 0" and "k prev [] = Some x" by (auto split: if_splits)
  then show ?case by (auto simp: lastp_def)
next
  case (Cons c s)
  show ?case
  proof (cases "P c \<and> hi \<noteq> Some 0")
    case True
    show ?thesis
    proof (cases "rep_greedy P (lo - 1) (dec hi) (Some c) s k")
      case None
      then have "lo = 0" and "k prev (c # s) = Some x"
        using Cons.prems True by (auto split: if_splits)
      then have "c # s = [] @ (c # s) \<and> list_all P [] \<and> lo \<le> length ([]::string) \<and>
                 k (lastp prev []) (c # s) = Some x"
        by (simp add: lastp_def)
      then show ?thesis by blast
    next
      case (Some r)
      then have "rep_greedy P (lo - 1) (dec hi) (Some c) s k = Some x"
        using Cons.prems True by simp
      then obtain ws s' where w: "s = ws @ s'" "list_all P ws" "lo - 1 \<le> length ws"
          "k (lastp (Some c) ws) s' = Some x"
        using Cons.IH by blast
      have "c # s = (c # ws) @ s' \<and> list_all P (c # ws) \<and> lo \<le> length (c # ws) \<and>
            k (lastp prev (c # ws)) s' = Some x"
        using w True by (auto simp: lastp_Cons)
      then show ?thesis by blast
    qed
  next
    case False
    then have "lo = 0" and "k prev (c # s) = Some x"
      using Cons.prems by (auto split: if_splits)
    then have "c # s = [] @ (c # s) \<and> list_all P [] \<and> lo \<le> length ([]::string) \<and>
               k (lastp prev []) (c # s) = Some x"
      by (simp add: lastp_def)
    then show ?thesis by blast
  qed
qed

lemma rep_lazy_path:
  "rep_lazy P lo hi prev s k = Some x \<Longrightarrow>
     \<exists>ws s'. s = ws @ s' \<and> list_all P ws \<and> lo \<le> length ws \<and> k (lastp prev ws) s' = Some x"
proof (induction s arbitrary: lo hi prev)
  case Nil
  then have "lo = 0" and "k prev [] = Some x" by (auto split: if_splits)
  then show ?case by (auto simp: lastp_def)
next
  case (Cons c s)
  have stop: "k prev (c # s) = Some x \<Longrightarrow> lo = 0 \<Longrightarrow> ?case"
  proof -
    assume "k prev (c # s) = Some x" "lo = 0"
    then have "c # s = [] @ (c # s) \<and> list_all P [] \<and> lo \<le> length ([]::string) \<and>
               k (lastp prev []) (c # s) = Some x"
      by (simp add: lastp_def)
    then show ?case by blast
  qed
  have more: "rep_lazy P (lo - 1) (dec hi) (Some c) s k = Some x \<Longrightarrow> P c \<Longrightarrow> ?case"
  proof -
    assume "rep_lazy P (lo - 1) (dec hi) (Some c) s k = Some x" and pc: "P c"
    then obtain ws s' where w: "s = ws @ s'" "list_all P ws" "lo - 1 \<le> length ws"
        "k (lastp (Some c) ws) s' = Some x"
      using Cons.IH by blast
    have "c # s = (c # ws) @ s' \<and> list_all P (c # ws) \<and> lo \<le> length (c # ws) \<and>
          k (lastp prev (c # ws)) s' = Some x"
      using w pc by (auto simp: lastp_Cons)
    then show ?case by blast
  qed
  show ?case
  proof (cases "lo = 0")
    case True
    show ?thesis
    proof (cases "k prev (c # s)")
      case None
      then have "rep_lazy P (lo - 1) (dec hi) (Some c) s k = Some x \<and> P c"
        using Cons.prems True by (auto split: if_splits)
      then show ?thesis using more by blast
    next
      case (Some r)
      then have "k prev (c # s) = Some x" using Cons.prems True by simp
      then show ?thesis using stop True by blast
    qed
  next
    case False
    then have "rep_lazy P (lo - 1) (dec hi) (Some c) s k = Some x \<and> P c"
      using Cons.prems by (auto split: if_splits)
    then show ?thesis using more by blast
  qed
qed

lemma rmatch_sound:
  "rmatch fl r prev s k = Some x \<Longrightarrow>
     \<exists>prev' s'. k prev' s' = Some x \<and> length s' + minlen r \<le> length s"
proof (induction r arbitrary: prev s k)
  case Eps
  then show ?case by auto
next
  case (A a)
  then show ?case by (cases s) (auto split: if_splits)
next
  case (Rep a lo hi greedy)
  have "\<exists>ws s'. s = ws @ s' \<and> list_all (amatch fl a) ws \<and> lo \<le> length ws \<and>
          k (lastp prev ws) s' = Some x"
  proof (cases greedy)
    case True
    then have "rep_greedy (amatch fl a) lo hi prev s k = Some x" using Rep by simp
    then show ?thesis by (rule rep_greedy_path)
  next
    case False
    then have "rep_lazy (amatch fl a) lo hi prev s k = Some x" using Rep by simp
    then show ?thesis by (rule rep_lazy_path)
  qed
  then obtain ws s' where "s = ws @ s'" "lo \<le> length ws" "k (lastp prev ws) s' = Some x"
    by blast
  then have "k (lastp prev ws) s' = Some x \<and> length s' + minlen (Rep a lo hi greedy) \<le> length s"
    by simp
  then show ?case by blast
next
  case (Seq r1 r2)
  then have "rmatch fl r1 prev s (\<lambda>prev' s'. rmatch fl r2 prev' s' k) = Some x" by simp
  then obtain p1 s1 where 1: "rmatch fl r2 p1 s1 k = Some x" "length s1 + minlen r1 \<le> length s"
    using Seq.IH(1) by blast
  then obtain p2 s2 where 2: "k p2 s2 = Some x" "length s2 + minlen r2 \<le> length s1"
    using Seq.IH(2) by blast
  have "k p2 s2 = Some x \<and> length s2 + minlen (Seq r1 r2) \<le> length s"
    using 1 2 by simp
  then show ?case by blast
next
  case (Alt r1 r2)
  show ?case
  proof (cases "rmatch fl r1 prev s k")
    case None
    then have "rmatch fl r2 prev s k = Some x" using Alt.prems by simp
    then obtain p' s' where "k p' s' = Some x" "length s' + minlen r2 \<le> length s"
      using Alt.IH(2) by blast
    then have "k p' s' = Some x \<and> length s' + minlen (Alt r1 r2) \<le> length s" by simp
    then show ?thesis by blast
  next
    case (Some r)
    then have "rmatch fl r1 prev s k = Some x" using Alt.prems by simp
    then obtain p' s' where "k p' s' = Some x" "length s' + minlen r1 \<le> length s"
      using Alt.IH(1) by blast
    then have "k p' s' = Some x \<and> length s' + minlen (Alt r1 r2) \<le> length s" by simp
    then show ?thesis by blast
  qed
next
  case (Look r)
  then have "rmatch fl r prev s (\<lambda>_ _. k prev s) = Some x" by simp
  then have "k prev s = Some x" using Look.IH by blast
  then show ?case by auto
next
  case Bol
  then show ?case by (auto split: if_splits)
next
  case Eol
  then show ?case by (auto split: if_splits)
qed

lemma match_at_sound:
  assumes "match_at fl a g b prev s = Some (m, prev', s')"
  shows "minlen g \<le> length m \<and> length s' + length m \<le> length s"
proof -
  have 0: "rmatch fl a prev s (\<lambda>p1 s1. rmatch fl g p1 s1 (\<lambda>p2 s2. rmatch fl b p2 s2
             (\<lambda>p3 s3. Some (take (length s1 - length s2) s1, p3, s3)))) = Some (m, prev', s')"
    using assms by (simp add: match_at_def)
  from rmatch_sound[OF 0] obtain p1 s1 where
    1: "rmatch fl g p1 s1 (\<lambda>p2 s2. rmatch fl b p2 s2
             (\<lambda>p3 s3. Some (take (length s1 - length s2) s1, p3, s3))) = Some (m, prev', s')"
    and l1: "length s1 + minlen a \<le> length s"
    by (elim exE conjE)
  from rmatch_sound[OF 1] obtain p2 s2 where
    2: "rmatch fl b p2 s2 (\<lambda>p3 s3. Some (take (length s1 - length s2) s1, p3, s3)) =
          Some (m, prev', s')"
    and l2: "length s2 + minlen g \<le> length s1"
    by (elim exE conjE)
  from rmatch_sound[OF 2] obtain p3 s3 where
    3: "Some (take (length s1 - length s2) s1, p3, s3) = Some (m, prev', s')"
    and l3: "length s3 + minlen b \<le> length s2"
    by (elim exE conjE)
  have m: "m = take (length s1 - length s2) s1" and s': "s' = s3" using 3 by auto
  have "length m = length s1 - length s2" unfolding m by simp
  then show ?thesis using l1 l2 l3 s' by arith
qed

lemma search_from_sound:
  "search_from fl a g b prev s = Some (m, prev', s') \<Longrightarrow>
     minlen g \<le> length m \<and> length s' + length m \<le> length s"
proof (induction s arbitrary: prev)
  case Nil
  then have "match_at fl a g b prev [] = Some (m, prev', s')" by simp
  then show ?case by (rule match_at_sound)
next
  case (Cons c s)
  show ?case
  proof (cases "match_at fl a g b prev (c # s)")
    case None
    then have "search_from fl a g b (Some c) s = Some (m, prev', s')" using Cons.prems by simp
    then have "minlen g \<le> length m \<and> length s' + length m \<le> length s" by (rule Cons.IH)
    then show ?thesis by simp
  next
    case (Some r)
    then have "match_at fl a g b prev (c # s) = Some (m, prev', s')" using Cons.prems by simp
    then show ?thesis by (rule match_at_sound)
  qed
qed

lemma re_findall_Nil:
  "re_findall fl p tx = [] \<longleftrightarrow> search_from fl (pre p) (grp p) (post p) None tx = None"
  unfolding re_findall_def
  by (subst findall_from.simps) (auto split: option.splits)

lemma re_findall_Cons:
  "re_findall fl p tx = m # ms \<Longrightarrow>
     \<exists>prev' s'. search_from fl (pre p) (grp p) (post p) None tx = Some (m, prev', s')"
  unfolding re_findall_def
  by (subst (asm) findall_from.simps) (auto split: option.splits)

lemma re_findall_hd:
  "search_from fl (pre p) (grp p) (post p) None tx = Some (m, prev', s') \<Longrightarrow>
     \<exists>ms. re_findall fl p tx = m # ms"
  unfolding re_findall_def
  by (subst findall_from.simps) simp

lemma re_findall_hd_length:
  assumes "re_findall fl p tx = m # ms"
  shows "minlen (grp p) \<le> length m"
proof -
  obtain prev' s' where "search_from fl (pre p) (grp p) (post p) None tx = Some (m, prev', s')"
    using re_findall_Cons[OF assms] by blast
  then show ?thesis using search_from_sound by blast
qed

section \<open>Weight routing\<close>

lemma weight_patterns_3:
  "weight_patterns_list = [gross_weight_pattern, net_weight_pattern, generic_weight_pattern]"
  by (simp add: weight_patterns_list_def gross_weight_pattern_def net_weight_pattern_def
      generic_weight_pattern_def)

lemma weight_src_0: "contains ''GROSS'' (upper (src gross_weight_pattern))"
  by code_simp

lemma weight_src_1:
  "\<not> contains ''GROSS'' (upper (src net_weight_pattern))"
  "contains ''NET'' (upper (src net_weight_pattern))"
  by code_simp+

lemma weight_src_2:
  "\<not> contains ''GROSS'' (upper (src generic_weight_pattern))"
  "\<not> contains ''NET'' (upper (src generic_weight_pattern))"
  by code_simp+

lemma weight_grp_minlen:
  "minlen (grp gross_weight_pattern) = 3"
  "minlen (grp net_weight_pattern) = 3"
  "minlen (grp generic_weight_pattern) = 3"
  by code_simp+

text \<open>The weight loop over the three patterns of the catalog, by what each pattern finds.\<close>

lemma weights_loop_catalog:
  "weights_loop weight_patterns_list tx ([], []) =
     ((case re_findall I_only gross_weight_pattern tx of
         m # ms \<Rightarrow> m
       | [] \<Rightarrow> (case re_findall I_only generic_weight_pattern tx of m # ms \<Rightarrow> m | [] \<Rightarrow> [])),
      (case re_findall I_only net_weight_pattern tx of m # ms \<Rightarrow> m | [] \<Rightarrow> []))"
proof -
  let ?G = "re_findall I_only gross_weight_pattern tx"
  have ne: "\<And>m ms. ?G = m # ms \<Longrightarrow> m \<noteq> []"
  proof -
    fix m ms assume "?G = m # ms"
    then have "minlen (grp gross_weight_pattern) \<le> length m" by (rule re_findall_hd_length)
    then show "m \<noteq> []" using weight_grp_minlen(1) by auto
  qed
  show ?thesis
    unfolding weight_patterns_3
    using ne by (auto simp: weight_src_0 weight_src_1 weight_src_2 split: list.splits)
qed

lemma extract_weights_quantities_eq:
  "extract_weights_quantities tx =
     (fst (weights_loop weight_patterns_list tx ([], [])),
      snd (weights_loop weight_patterns_list tx ([], [])),
      quantity_loop quantity_patterns_list tx)"
  by (simp add: extract_weights_quantities_def gp_weight_patterns gp_quantity_patterns
      split: prod.splits)

text \<open>
  C6. A text with the lines \<open>GROSS WEIGHT: 100 KG\<close> and \<open>NET WEIGHT: 90 KG\<close> yields
  gross \<open>100 KG\<close> and net \<open>90 KG\<close>; the text \<open>WEIGHT: 50 KG\<close> yields gross \<open>50 KG\<close>
  and an empty net weight. For every text: when the GROSS pattern finds a weight, that
  weight is the gross weight returned, whatever the generic WEIGHT pattern finds; and the
  net weight returned is the first match of the NET pattern, or empty without one, so
  the generic pattern never fills it.
\<close>

theorem weight_routing:
  "extract_weights_quantities ''GROSS WEIGHT: 100 KG\<newline>NET WEIGHT: 90 KG'' =
     (''100 KG'', ''90 KG'', []) \<and>
   extract_weights_quantities ''WEIGHT: 50 KG'' = (''50 KG'', [], []) \<and>
   (\<forall>tx m ms. re_findall I_only gross_weight_pattern tx = m # ms \<longrightarrow>
      fst (extract_weights_quantities tx) = m) \<and>
   (\<forall>tx. fst (snd (extract_weights_quantities tx)) =
      (case re_findall I_only net_weight_pattern tx of m # ms \<Rightarrow> m | [] \<Rightarrow> []))"
proof (intro conjI allI impI)
  show "extract_weights_quantities ''GROSS WEIGHT: 100 KG\<newline>NET WEIGHT: 90 KG'' =
     (''100 KG'', ''90 KG'', [])"
    unfolding extract_weights_quantities_def gp_weight_patterns gp_quantity_patterns
    by code_simp
  show "extract_weights_quantities ''WEIGHT: 50 KG'' = (''50 KG'', [], [])"
    unfolding extract_weights_quantities_def gp_weight_patterns gp_quantity_patterns
    by code_simp
next
  fix tx m ms
  assume "re_findall I_only gross_weight_pattern tx = m # ms"
  then show "fst (extract_weights_quantities tx) = m"
    by (simp add: extract_weights_quantities_eq weights_loop_catalog)
next
  fix tx
  show "fst (snd (extract_weights_quantities tx)) =
      (case re_findall I_only net_weight_pattern tx of m # ms \<Rightarrow> m | [] \<Rightarrow> [])"
    by (simp add: extract_weights_quantities_eq weights_loop_catalog)
qed

text \<open>In the two-line text the generic pattern matches twice, and the gross weight is
  still the one the GROSS pattern found.\<close>

theorem weight_routing_witness:
  "re_findall I_only generic_weight_pattern ''GROSS WEIGHT: 100 KG\<newline>NET WEIGHT: 90 KG'' =
     [''100 KG'', ''90 KG''] \<and>
   fst (extract_weights_quantities ''GROSS WEIGHT: 100 KG\<newline>NET WEIGHT: 90 KG'') = ''100 KG''"
proof -
  define t where "t = ''GROSS WEIGHT: 100 KG\<newline>NET WEIGHT: 90 KG''"
  have g: "re_findall I_only gross_weight_pattern t = [''100 KG'']"
    unfolding t_def by code_simp
  have w: "re_findall I_only generic_weight_pattern t = [''100 KG'', ''90 KG'']"
    unfolding t_def by code_simp
  have "fst (extract_weights_quantities t) = ''100 KG''"
    using weight_routing g by blast
  then show ?thesis using w unfolding t_def by simp
qed

lemma match_at_Seq:
  "match_at fl (Seq r1 r2) g b prev s = rmatch fl r1 prev s (\<lambda>p s'. match_at fl r2 g b p s')"
  by (simp add: match_at_def)

lemma net_parts:
  "pre net_weight_pattern = Seq (lits ''NET'') (Seq (star WS) weight_label)"
  "grp net_weight_pattern = grp generic_weight_pattern"
  "post net_weight_pattern = post generic_weight_pattern"
  "pre generic_weight_pattern = weight_label"
  by (simp_all add: net_weight_pattern_def generic_weight_pattern_def weight_patterns_list_def
      weight_label_def seq_def)

lemma lower_letters:
  "lower_chr CHR ''N'' = CHR ''n''" "lower_chr CHR ''E'' = CHR ''e''"
  "lower_chr CHR ''T'' = CHR ''t''" "lower_chr CHR ''W'' = CHR ''w''"
  by code_simp+

lemma space_not_w: "isspace c \<Longrightarrow> lower_chr c \<noteq> CHR ''w''"
proof (cases c)
  case (Char b0 b1 b2 b3 b4 b5 b6 b7)
  assume "isspace c"
  then show ?thesis unfolding Char isspace_bits lower_chr_bits by auto
qed

text \<open>In a match of the NET pattern, the three letters are followed by white space and
  then by a match of the generic pattern, with the same result.\<close>

lemma rmatch_NET:
  assumes "rmatch I_only (lits ''NET'') prev s k = Some x"
  shows "\<exists>n e t s0. s = n # e # t # s0 \<and>
           lower_chr n = CHR ''n'' \<and> lower_chr e = CHR ''e'' \<and> lower_chr t = CHR ''t'' \<and>
           k (Some t) s0 = Some x"
proof -
  have ic: "ignorecase I_only" by (simp add: I_only_def)
  have 0: "rmatch I_only (A (Chr CHR ''N'')) prev s (\<lambda>p1 s1.
             rmatch I_only (A (Chr CHR ''E'')) p1 s1 (\<lambda>p2 s2.
               rmatch I_only (A (Chr CHR ''T'')) p2 s2 k)) = Some x"
    using assms by (simp add: lits_def)
  obtain n s1 where s: "s = n # s1" and n: "lower_chr n = CHR ''n''"
    and 1: "rmatch I_only (A (Chr CHR ''E'')) (Some n) s1 (\<lambda>p2 s2.
               rmatch I_only (A (Chr CHR ''T'')) p2 s2 k) = Some x"
    using 0 ic by (cases s) (auto simp: lower_letters split: if_splits)
  obtain e s2 where s1: "s1 = e # s2" and e: "lower_chr e = CHR ''e''"
    and 2: "rmatch I_only (A (Chr CHR ''T'')) (Some e) s2 k = Some x"
    using 1 ic by (cases s1) (auto simp: lower_letters split: if_splits)
  obtain t s0 where s2: "s2 = t # s0" and t: "lower_chr t = CHR ''t''"
    and 3: "k (Some t) s0 = Some x"
    using 2 ic by (cases s2) (auto simp: lower_letters split: if_splits)
  show ?thesis using s s1 s2 n e t 3 by simp
qed

lemma net_match_parts:
  assumes "match_at I_only (pre net_weight_pattern) g b prev s = Some x"
  shows "\<exists>n e t ws s1. s = n # e # t # ws @ s1 \<and>
           lower_chr n = CHR ''n'' \<and> lower_chr e = CHR ''e'' \<and> lower_chr t = CHR ''t'' \<and>
           list_all isspace ws \<and>
           match_at I_only weight_label g b (lastp (Some t) ws) s1 = Some x"
proof -
  have 0: "rmatch I_only (lits ''NET'') prev s
      (\<lambda>p s'. rmatch I_only (star WS) p s' (\<lambda>p s'. match_at I_only weight_label g b p s')) = Some x"
    using assms by (simp only: net_parts match_at_Seq)
  from rmatch_NET[OF 0] obtain n e t s0 where s: "s = n # e # t # s0"
    and l: "lower_chr n = CHR ''n''" "lower_chr e = CHR ''e''" "lower_chr t = CHR ''t''"
    and 1: "rmatch I_only (star WS) (Some t) s0 (\<lambda>p s'. match_at I_only weight_label g b p s') = Some x"
    by (elim exE conjE)
  have 2: "rep_greedy isspace 0 None (Some t) s0 (\<lambda>p s'. match_at I_only weight_label g b p s') = Some x"
    using 1 by (simp add: star_def amatch_WS)
  from rep_greedy_path[OF 2] obtain ws s1 where w: "s0 = ws @ s1" "list_all isspace ws"
      "match_at I_only weight_label g b (lastp (Some t) ws) s1 = Some x"
    by (elim exE conjE)
  have "s = n # e # t # ws @ s1 \<and>
           lower_chr n = CHR ''n'' \<and> lower_chr e = CHR ''e'' \<and> lower_chr t = CHR ''t'' \<and>
           list_all isspace ws \<and>
           match_at I_only weight_label g b (lastp (Some t) ws) s1 = Some x"
    using s l w by simp
  then show ?thesis by (intro exI)
qed

lemma weight_label_first:
  "lower_chr c \<noteq> CHR ''w'' \<Longrightarrow> match_at I_only weight_label g b prev (c # s) = None"
  by (simp add: match_at_def weight_label_def seq_def lits_def I_only_def lower_letters)

lemma search_skip:
  "list_all (\<lambda>c. lower_chr c \<noteq> CHR ''w'') u \<Longrightarrow>
     search_from I_only weight_label g b prev (u @ s) =
     search_from I_only weight_label g b (lastp prev u) s"
proof (induction u arbitrary: prev)
  case Nil
  show ?case by (simp add: lastp_def)
next
  case (Cons c u)
  then have "match_at I_only weight_label g b prev (c # u @ s) = None"
    by (simp add: weight_label_first)
  then show ?case using Cons by (simp add: lastp_Cons)
qed

lemma search_from_hit:
  "match_at fl a g b prev s = Some x \<Longrightarrow> search_from fl a g b prev s = Some x"
  by (cases s) auto

lemma net_match_generic:
  assumes "match_at I_only (pre net_weight_pattern) g b prev s = Some x"
  shows "search_from I_only weight_label g b prev s = Some x"
proof -
  obtain n e t ws s1 where s: "s = n # e # t # ws @ s1"
    and l: "lower_chr n = CHR ''n''" "lower_chr e = CHR ''e''" "lower_chr t = CHR ''t''"
    and w: "list_all isspace ws"
    and m: "match_at I_only weight_label g b (lastp (Some t) ws) s1 = Some x"
    using net_match_parts[OF assms] by (elim exE conjE)
  have "list_all (\<lambda>c. lower_chr c \<noteq> CHR ''w'') ws"
    using w space_not_w by (simp add: list_all_iff)
  then have u: "list_all (\<lambda>c. lower_chr c \<noteq> CHR ''w'') ([n, e, t] @ ws)"
    using l by simp
  have lp: "lastp prev ([n, e, t] @ ws) = lastp (Some t) ws"
    by (simp add: lastp_def)
  have "search_from I_only weight_label g b prev (([n, e, t] @ ws) @ s1) =
        search_from I_only weight_label g b (lastp (Some t) ws) s1"
    using search_skip[OF u] lp by simp
  also have "\<dots> = Some x" using m by (rule search_from_hit)
  finally show ?thesis using s by simp
qed

lemma search_pos_Nil: "search_pos fl a g b prev [] = Some j \<Longrightarrow> j = 0"
  by (auto split: option.splits)

lemma first_net_is_first_generic:
  "search_pos I_only (pre net_weight_pattern) g b prev s = Some i \<Longrightarrow>
   search_pos I_only weight_label g b prev s = Some j \<Longrightarrow> i < j \<Longrightarrow>
   search_from I_only weight_label g b prev s =
   search_from I_only (pre net_weight_pattern) g b prev s"
proof (induction s arbitrary: prev i j)
  case Nil
  then have "j = 0" using search_pos_Nil by blast
  then show ?case using Nil by simp
next
  case (Cons c s)
  show ?case
  proof (cases "match_at I_only (pre net_weight_pattern) g b prev (c # s)")
    case (Some x)
    then have "search_from I_only weight_label g b prev (c # s) = Some x"
      by (rule net_match_generic)
    then show ?thesis using Some by simp
  next
    case None
    then obtain i' where i': "search_pos I_only (pre net_weight_pattern) g b (Some c) s = Some i'"
        "i = Suc i'"
      using Cons.prems(1) by auto
    have g0: "match_at I_only weight_label g b prev (c # s) = None"
      using Cons.prems(2,3) by (cases "match_at I_only weight_label g b prev (c # s)") auto
    then obtain j' where j': "search_pos I_only weight_label g b (Some c) s = Some j'" "j = Suc j'"
      using Cons.prems(2) by auto
    have "i' < j'" using Cons.prems(3) i'(2) j'(2) by simp
    then have "search_from I_only weight_label g b (Some c) s =
               search_from I_only (pre net_weight_pattern) g b (Some c) s"
      using Cons.IH[OF i'(1) j'(1)] by simp
    then show ?thesis using None g0 by simp
  qed
qed

lemma search_pos_Some:
  "search_pos fl a g b prev s = Some i \<Longrightarrow> \<exists>x. search_from fl a g b prev s = Some x"
proof (induction s arbitrary: prev i)
  case Nil
  then show ?case by (auto split: option.splits)
next
  case (Cons c s)
  then show ?case by (cases "match_at fl a g b prev (c # s)") auto
qed

text \<open>
  C10. For every text in which the GROSS pattern finds nothing, the NET pattern matches,
  and the generic WEIGHT pattern matches nowhere before the first NET match begins (no
  weight label other than NET ones up to there): the gross weight returned is not empty
  and equals the net weight returned. The generic pattern matches inside the NET label
  and fills the gross weight, which is still empty.
\<close>

theorem net_only_weight_fills_gross:
  assumes "re_findall I_only gross_weight_pattern tx = []"
      and "first_pos I_only net_weight_pattern tx = Some i"
      and "first_pos I_only generic_weight_pattern tx = Some j"
      and "i < j"
  shows "\<exists>w. w \<noteq> [] \<and> fst (extract_weights_quantities tx) = w \<and>
             fst (snd (extract_weights_quantities tx)) = w"
proof -
  let ?g = "grp generic_weight_pattern" and ?b = "post generic_weight_pattern"
  have pn: "search_pos I_only (pre net_weight_pattern) ?g ?b None tx = Some i"
    using assms(2) by (simp add: first_pos_def net_parts)
  have pg: "search_pos I_only weight_label ?g ?b None tx = Some j"
    using assms(3) by (simp add: first_pos_def net_parts)
  have eq: "search_from I_only weight_label ?g ?b None tx =
            search_from I_only (pre net_weight_pattern) ?g ?b None tx"
    using first_net_is_first_generic[OF pn pg assms(4)] .
  obtain x where x: "search_from I_only (pre net_weight_pattern) ?g ?b None tx = Some x"
    using search_pos_Some[OF pn] by blast
  obtain w p' s' where xw: "x = (w, p', s')" by (cases x)
  have sn: "search_from I_only (pre net_weight_pattern) (grp net_weight_pattern)
              (post net_weight_pattern) None tx = Some (w, p', s')"
    using x xw by (simp add: net_parts)
  have sg: "search_from I_only (pre generic_weight_pattern) (grp generic_weight_pattern)
              (post generic_weight_pattern) None tx = Some (w, p', s')"
    using x xw eq by (simp add: net_parts)
  obtain ns where n: "re_findall I_only net_weight_pattern tx = w # ns"
    using re_findall_hd[OF sn] by blast
  obtain gs where g: "re_findall I_only generic_weight_pattern tx = w # gs"
    using re_findall_hd[OF sg] by blast
  have "minlen (grp net_weight_pattern) \<le> length w" using n by (rule re_findall_hd_length)
  then have ne: "w \<noteq> []" using weight_grp_minlen(2) by auto
  have "fst (extract_weights_quantities tx) = w \<and> fst (snd (extract_weights_quantities tx)) = w"
    by (simp add: extract_weights_quantities_eq weights_loop_catalog assms(1) n g)
  then show ?thesis using ne by blast
qed

text \<open>The text \<open>NET WEIGHT: 90 KG\<close>: the NET pattern matches at 0, the generic pattern
  first at 4.\<close>

theorem net_only_weight_fills_gross_witness:
  "extract_weights_quantities ''NET WEIGHT: 90 KG'' = (''90 KG'', ''90 KG'', [])"
proof -
  define t where "t = ''NET WEIGHT: 90 KG''"
  have a: "re_findall I_only gross_weight_pattern t = []" unfolding t_def by code_simp
  have b: "first_pos I_only net_weight_pattern t = Some 0" unfolding t_def by code_simp
  have c: "first_pos I_only generic_weight_pattern t = Some 4" unfolding t_def by code_simp
  have d: "(0::nat) < 4" by simp
  have n: "re_findall I_only net_weight_pattern t = [''90 KG'']" unfolding t_def by code_simp
  have q: "quantity_loop quantity_patterns_list t = []" unfolding t_def by code_simp
  obtain w where w: "fst (extract_weights_quantities t) = w"
      "fst (snd (extract_weights_quantities t)) = w"
    using net_only_weight_fills_gross[OF a b c d] by blast
  have "fst (snd (extract_weights_quantities t)) = ''90 KG''"
    by (simp add: extract_weights_quantities_eq weights_loop_catalog n)
  then have "w = ''90 KG''" using w(2) by simp
  then have "extract_weights_quantities t = (''90 KG'', ''90 KG'', [])"
    using w q by (simp add: extract_weights_quantities_eq)
  then show ?thesis unfolding t_def .
qed

end
